theory Spec2Isabelle
  imports Main
begin

section \<open>Text helpers (Python \<open>str\<close> methods used by the sources)\<close>

text \<open>
  Python strings are modelled as \<^typ>\<open>string\<close>; the text that flows through the code
  (keys, error messages, model output, resume lines) is taken to be ASCII.

  \<open>is_space\<close> is \<open>str.isspace\<close> on one ASCII character: space, \<open>\t \n \v \f \r\<close>
  and the separators \<open>0x1c .. 0x1f\<close>. It is the set \<open>str.strip()\<close> removes and the
  class \<open>\s\<close> of \<open>re\<close> on \<open>str\<close> patterns.
\<close>

definition is_space :: "char \<Rightarrow> bool" where
  "is_space c = (of_char c \<in> {9, 10, 11, 12, 13, 28, 29, 30, 31, 32 :: nat})"

definition strip :: "string \<Rightarrow> string" where
  "strip s = rev (dropWhile is_space (rev (dropWhile is_space s)))"

definition is_upper :: "char \<Rightarrow> bool" where
  "is_upper c = (65 \<le> (of_char c :: nat) \<and> (of_char c :: nat) \<le> 90)"

definition is_lower :: "char \<Rightarrow> bool" where
  "is_lower c = (97 \<le> (of_char c :: nat) \<and> (of_char c :: nat) \<le> 122)"

definition is_digit :: "char \<Rightarrow> bool" where
  "is_digit c = (48 \<le> (of_char c :: nat) \<and> (of_char c :: nat) \<le> 57)"

text \<open>\<open>str.lower\<close> on ASCII text: the capital letters change, nothing else does.\<close>

definition lower_char :: "char \<Rightarrow> char" where
  "lower_char c =
     (case map_of (zip ''ABCDEFGHIJKLMNOPQRSTUVWXYZ'' ''abcdefghijklmnopqrstuvwxyz'') c of
        Some l \<Rightarrow> l
      | None \<Rightarrow> c)"

definition lower :: "string \<Rightarrow> string" where
  "lower s = map lower_char s"

fun startswith :: "string \<Rightarrow> string \<Rightarrow> bool" where
  "startswith s [] = True"
| "startswith [] (p # ps) = False"
| "startswith (c # cs) (p # ps) = (c = p \<and> startswith cs ps)"

text \<open>\<open>contains s p\<close> is Python's \<open>p in s\<close> on strings.\<close>

fun contains :: "string \<Rightarrow> string \<Rightarrow> bool" where
  "contains [] p = (p = [])"
| "contains (c # cs) p = (startswith (c # cs) p \<or> contains cs p)"

section \<open>The completion service and the credential pool (\<open>f_script_api_v2.py\<close>)\<close>

text \<open>
  Exceptions are values. \<open>GroqAPIError msg cause\<close> carries the message and the text of
  the exception it was raised \<open>from\<close> (\<open>None\<close> when raised plainly). \<open>IndexError\<close> is what
  \<open>random.choice\<close> raises on an empty sequence and what \<open>choices[0]\<close> raises on an empty
  list. \<open>AttributeError\<close>, \<open>TypeError\<close> and \<open>JSONDecodeError\<close> are Python's. \<open>OSError\<close> is
  an error of the file system, of that class or of one of its subclasses
  (\<open>FileNotFoundError\<close>, \<open>NotADirectoryError\<close>, \<open>IsADirectoryError\<close>). \<open>OtherException\<close> is
  any other \<open>Exception\<close>, with its text.
\<close>

datatype error =
    GroqAPIError string "string option"
  | IndexError
  | ValueError string
  | AttributeError
  | TypeError
  | JSONDecodeError
  | OSError
  | OtherException string

text \<open>
  The service is outside the program. A call either returns a response or raises an
  exception whose text is \<open>str(e)\<close>. The response is the list of the contents of
  \<open>response.choices[i].message.content\<close>.
\<close>

type_synonym response = "string list"

datatype call_result = Success response | Failure string

text \<open>
  A service call is the minimal probe of \<open>_validate_api_key\<close> or a completion request
  (its payload is the type parameter).
\<close>

datatype 'q request = Probe | Completion 'q

text \<open>
  The environment fixes what the outside does: \<open>service n key req\<close> is the outcome of
  the service call made when \<open>n\<close> calls have been made before, and \<open>rand n\<close> the raw
  number behind the \<open>n\<close>-th draw of \<open>random.choice\<close>. Quantifying over the environment
  covers every behaviour of the service and every sequence of random draws.
\<close>

record 'q env =
  service :: "nat \<Rightarrow> string \<Rightarrow> 'q request \<Rightarrow> call_result"
  rand :: "nat \<Rightarrow> nat"

text \<open>The world records the service calls made so far (oldest first) and the draws.\<close>

record 'q world =
  calls :: "(string \<times> 'q request \<times> call_result) list"
  draws :: nat

definition call_service ::
  "'q env \<Rightarrow> string \<Rightarrow> 'q request \<Rightarrow> 'q world \<Rightarrow> call_result \<times> 'q world" where
  "call_service e key req w =
     (let r = service e (length (calls w)) key req
      in (r, w\<lparr>calls := calls w @ [(key, req, r)]\<rparr>))"

text \<open>\<open>random.choice(xs)\<close>: \<open>IndexError\<close> on an empty list, else one of its elements.\<close>

definition random_choice ::
  "'q env \<Rightarrow> string list \<Rightarrow> 'q world \<Rightarrow> (error + string) \<times> 'q world" where
  "random_choice e xs w =
     (if xs = [] then (Inl IndexError, w)
      else (Inr (xs ! (rand e (draws w) mod length xs)), w\<lparr>draws := Suc (draws w)\<rparr>))"

text \<open>The fields of \<open>MultiGroqClient\<close>. The current client is known by its key.\<close>

record client =
  api_keys :: "string list"
  current_client :: "string option"
  used_keys :: "string set"
  invalid_keys :: "string set"

text \<open>
  \<open>_is_valid_key_format\<close>: after \<open>strip\<close>, the key matches \<open>^gsk_[A-Za-z0-9]{32,}$\<close>.
  A stripped key cannot end in a newline, so \<open>$\<close> is the end of the key.
\<close>

definition is_alnum :: "char \<Rightarrow> bool" where
  "is_alnum c = (is_upper c \<or> is_lower c \<or> is_digit c)"

definition is_valid_key_format :: "string \<Rightarrow> bool" where
  "is_valid_key_format key0 =
     (if key0 = [] then False
      else let key = strip key0
           in take 4 key = ''gsk_'' \<and> 32 \<le> length (drop 4 key) \<and> list_all is_alnum (drop 4 key))"

text \<open>
  \<open>_validate_api_key\<close>: one probe call; only a failure whose text holds
  \<open>invalid_api_key\<close> (any case) or \<open>401\<close> makes the key invalid.
\<close>

definition validate_api_key :: "'q env \<Rightarrow> string \<Rightarrow> 'q world \<Rightarrow> bool \<times> 'q world" where
  "validate_api_key e key w =
     (case call_service e key Probe w of
        (Success r, w') \<Rightarrow> (True, w')
      | (Failure msg, w') \<Rightarrow>
          (if contains (lower msg) ''invalid_api_key'' \<or> contains msg ''401''
           then (False, w') else (True, w')))"

text \<open>
  \<open>_initialize_client\<close>. The keys neither used nor invalid are the candidates; when
  there is none, the call raises if the invalid set is as large as the key list, and
  else clears the used set and takes every key that is not invalid. A key is drawn,
  probed, and either marked invalid (and the selection starts again) or installed and
  marked used.
\<close>

definition candidates :: "client \<Rightarrow> client \<times> string list" where
  "candidates s =
     (let available_keys =
            filter (\<lambda>key. key \<notin> used_keys s \<and> key \<notin> invalid_keys s) (api_keys s)
      in if available_keys = []
         then (s\<lparr>used_keys := {}\<rparr>, filter (\<lambda>key. key \<notin> invalid_keys s) (api_keys s))
         else (s, available_keys))"

definition all_invalid :: "client \<Rightarrow> bool" where
  "all_invalid s =
     (filter (\<lambda>key. key \<notin> used_keys s \<and> key \<notin> invalid_keys s) (api_keys s) = []
      \<and> card (invalid_keys s) = length (api_keys s))"

function initialize_client ::
  "'q env \<Rightarrow> client \<Rightarrow> 'q world \<Rightarrow> (error + string) \<times> client \<times> 'q world" where
  "initialize_client e s w =
     (if all_invalid s then (Inl (GroqAPIError ''All API keys are invalid'' None), s, w)
      else
        (case random_choice e (snd (candidates s)) w of
           (Inl err, w1) \<Rightarrow> (Inl err, fst (candidates s), w1)
         | (Inr selected_key, w1) \<Rightarrow>
             (if \<not> fst (validate_api_key e selected_key w1)
              then initialize_client e
                     ((fst (candidates s))
                        \<lparr>invalid_keys := insert selected_key (invalid_keys (fst (candidates s)))\<rparr>)
                     (snd (validate_api_key e selected_key w1))
              else (Inr selected_key,
                    (fst (candidates s))
                      \<lparr>current_client := Some selected_key,
                       used_keys := insert selected_key (used_keys (fst (candidates s)))\<rparr>,
                    snd (validate_api_key e selected_key w1)))))"
  by pat_completeness auto

lemma random_choice_mem: "random_choice e xs w = (Inr k, w1) \<Longrightarrow> k \<in> set xs"
  by (auto simp: random_choice_def split: if_splits)

lemma candidates_snd_subset:
  "set (snd (candidates s)) \<subseteq> set (api_keys s) - invalid_keys s"
  by (auto simp: candidates_def Let_def)

lemma candidates_fst_invalid: "invalid_keys (fst (candidates s)) = invalid_keys s"
  by (simp add: candidates_def Let_def)

lemma candidates_fst_api_keys: "api_keys (fst (candidates s)) = api_keys s"
  by (simp add: candidates_def Let_def)

text \<open>
  Every restart has marked one more key of the pool invalid, so the number of keys of
  the pool outside the invalid set decreases: the selection always returns.
\<close>

termination initialize_client
proof (relation "measure (\<lambda>(e, s, w). card (set (api_keys s) - invalid_keys s))", goal_cases)
  case 1
  show ?case by simp
next
  case (2 e s w x1 w1 selected_key)
  from 2(2) have "random_choice e (snd (candidates s)) w = (Inr selected_key, w1)"
    using 2(3) by simp
  then have "selected_key \<in> set (snd (candidates s))" by (rule random_choice_mem)
  then have mem: "selected_key \<in> set (api_keys s) - invalid_keys s"
    using candidates_snd_subset by blast
  have "set (api_keys s) - insert selected_key (invalid_keys s)
        \<subset> set (api_keys s) - invalid_keys s"
    using mem by blast
  then have "card (set (api_keys s) - insert selected_key (invalid_keys s))
        < card (set (api_keys s) - invalid_keys s)"
    by (simp add: psubset_card_mono)
  then show ?case
    by (simp add: candidates_fst_invalid candidates_fst_api_keys)
qed

declare initialize_client.simps [simp del]

text \<open>
  \<open>MultiGroqClient.__init__\<close>: keeps the keys of valid format, stripped, and selects a
  first client.
\<close>

definition MultiGroqClient ::
  "'q env \<Rightarrow> string list \<Rightarrow> 'q world \<Rightarrow> (error + client) \<times> 'q world" where
  "MultiGroqClient e keys w =
     (if keys = [] then (Inl (ValueError ''No API keys provided''), w)
      else let ks = map strip (filter is_valid_key_format keys)
           in if ks = [] then (Inl (ValueError ''No valid API keys found''), w)
              else (case initialize_client e
                           \<lparr>api_keys = ks, current_client = None,
                            used_keys = {}, invalid_keys = {}\<rparr> w of
                      (Inl err, s, w') \<Rightarrow> (Inl err, w')
                    | (Inr k, s, w') \<Rightarrow> (Inr s, w')))"

text \<open>
  \<open>create_chat_completion\<close>. One attempt is one completion request with the current
  client. With no current client, \<open>self.current_client.chat\<close> raises an
  \<open>AttributeError\<close> inside the \<open>try\<close>, which the handler treats as a failed attempt.
\<close>

definition attempt ::
  "'q env \<Rightarrow> 'q \<Rightarrow> client \<Rightarrow> 'q world \<Rightarrow> call_result \<times> 'q world" where
  "attempt e req s w =
     (case current_client s of
        None \<Rightarrow>
          (Failure ([CHR 0x27] @ ''NoneType'' @ [CHR 0x27] @ '' object has no attribute ''
                    @ [CHR 0x27] @ ''chat'' @ [CHR 0x27]), w)
      | Some key \<Rightarrow> call_service e key (Completion req) w)"

text \<open>
  The handler of a failed attempt up to the rotation: the key of the current client
  joins the invalid set when the error text (lowered) holds \<open>invalid_api_key\<close> or
  \<open>401\<close>.
\<close>

definition mark_invalid :: "string \<Rightarrow> client \<Rightarrow> client" where
  "mark_invalid msg s =
     (let error_str = lower msg
      in if contains error_str ''invalid_api_key'' \<or> contains error_str ''401''
         then (case current_client s of
                 None \<Rightarrow> s
               | Some current_key \<Rightarrow> s\<lparr>invalid_keys := insert current_key (invalid_keys s)\<rparr>)
         else s)"

text \<open>
  The \<open>while retries < max_retries\<close> loop. \<open>Inr None\<close> is the \<open>None\<close> a Python function
  returns when the loop ends without \<open>return\<close> or \<open>raise\<close>. An error of
  \<open>_initialize_client\<close> leaves the loop: the handler re-raises \<open>GroqAPIError\<close> and
  catches nothing else.
\<close>

function completion_loop ::
  "'q env \<Rightarrow> 'q \<Rightarrow> nat \<Rightarrow> nat \<Rightarrow> client \<Rightarrow> 'q world
     \<Rightarrow> (error + response option) \<times> client \<times> 'q world" where
  "completion_loop e req max_retries retries s w =
     (if \<not> retries < max_retries then (Inr None, s, w)
      else
        (case attempt e req s w of
           (Success r, w1) \<Rightarrow> (Inr (Some r), s, w1)
         | (Failure msg, w1) \<Rightarrow>
             (if Suc retries < max_retries
              then (case initialize_client e (mark_invalid msg s) w1 of
                      (Inl ge, s2, w2) \<Rightarrow> (Inl ge, s2, w2)
                    | (Inr k, s2, w2) \<Rightarrow> completion_loop e req max_retries (Suc retries) s2 w2)
              else (Inl (GroqAPIError ''All API keys failed or are invalid'' (Some msg)),
                    mark_invalid msg s, w1))))"
  by pat_completeness auto
termination
  by (relation "measure (\<lambda>(e, req, max_retries, retries, s, w). max_retries - retries)") auto

declare completion_loop.simps [simp del]

definition create_chat_completion ::
  "'q env \<Rightarrow> 'q \<Rightarrow> client \<Rightarrow> 'q world \<Rightarrow> (error + response option) \<times> client \<times> 'q world" where
  "create_chat_completion e req s w = completion_loop e req (length (api_keys s)) 0 s w"

subsection \<open>What a call leaves behind\<close>

lemma candidates_fst_current: "current_client (fst (candidates s)) = current_client s"
  by (simp add: candidates_def Let_def)

text \<open>
  \<open>completion_results w\<close> lists the outcomes of the completion requests the service has
  received, oldest first: the attempts. Probes are not attempts.
\<close>

definition is_failure :: "call_result \<Rightarrow> bool" where
  "is_failure r = (case r of Failure msg \<Rightarrow> True | Success resp \<Rightarrow> False)"

definition completion_results :: "'q world \<Rightarrow> call_result list" where
  "completion_results w = map (\<lambda>c. snd (snd c)) (filter (\<lambda>c. fst (snd c) \<noteq> Probe) (calls w))"

text \<open>
  \<open>pool_ok\<close>: the pool holds no key twice and the invalid keys are keys of the pool.
  \<open>client_ok\<close>: moreover the pool is not empty and there is a current client, on a
  key of the pool. The constructor sets the current client before any call, the invalid
  set only ever gains the key of the current client or a key drawn from the pool.
\<close>

definition pool_ok :: "client \<Rightarrow> bool" where
  "pool_ok s = (distinct (api_keys s) \<and> invalid_keys s \<subseteq> set (api_keys s))"

definition client_ok :: "client \<Rightarrow> bool" where
  "client_ok s =
     (pool_ok s \<and> api_keys s \<noteq> []
      \<and> (case current_client s of None \<Rightarrow> False | Some key \<Rightarrow> key \<in> set (api_keys s)))"

lemma validate_completions:
  "completion_results (snd (validate_api_key e k w)) = completion_results w"
  by (auto simp: validate_api_key_def call_service_def Let_def completion_results_def
           split: call_result.splits)

lemma random_choice_completions:
  "random_choice e xs w = (r, w1) \<Longrightarrow> completion_results w1 = completion_results w"
  by (auto simp: random_choice_def completion_results_def split: if_splits)

lemma pool_ok_candidates_nonempty:
  assumes "pool_ok s" and "\<not> all_invalid s"
  shows "snd (candidates s) \<noteq> []"
proof (cases "filter (\<lambda>key. key \<notin> used_keys s \<and> key \<notin> invalid_keys s) (api_keys s) = []")
  case False
  then show ?thesis by (simp add: candidates_def Let_def)
next
  case True
  with assms(2) have ne: "card (invalid_keys s) \<noteq> length (api_keys s)"
    by (simp add: all_invalid_def)
  from assms(1) have d: "distinct (api_keys s)" and sub: "invalid_keys s \<subseteq> set (api_keys s)"
    by (simp_all add: pool_ok_def)
  from d have "card (set (api_keys s)) = length (api_keys s)" by (rule distinct_card)
  with ne have "invalid_keys s \<noteq> set (api_keys s)" by auto
  with sub obtain k where "k \<in> set (api_keys s)" "k \<notin> invalid_keys s" by blast
  then have "filter (\<lambda>key. key \<notin> invalid_keys s) (api_keys s) \<noteq> []"
    by (auto simp: filter_empty_conv)
  with True show ?thesis by (simp add: candidates_def Let_def)
qed

lemma initialize_client_props:
  "pool_ok s \<Longrightarrow> initialize_client e s w = (r, s', w') \<Longrightarrow>
     pool_ok s' \<and> api_keys s' = api_keys s
     \<and> completion_results w' = completion_results w
     \<and> (r = Inl (GroqAPIError ''All API keys are invalid'' None)
        \<or> (\<exists>k. r = Inr k \<and> current_client s' = Some k \<and> k \<in> set (api_keys s)))"
proof (induction e s w rule: initialize_client.induct)
  case (1 e s w)
  show ?case
  proof (cases "all_invalid s")
    case True
    with "1.prems" show ?thesis by (auto simp: initialize_client.simps)
  next
    case False
    have ne: "snd (candidates s) \<noteq> []"
      using pool_ok_candidates_nonempty "1.prems"(1) False by blast
    obtain rr w1 where rc: "random_choice e (snd (candidates s)) w = (rr, w1)"
      by (cases "random_choice e (snd (candidates s)) w")
    from rc ne obtain sel where Inr: "rr = Inr sel"
      by (auto simp: random_choice_def)
    have mem: "sel \<in> set (api_keys s) - invalid_keys s"
      using random_choice_mem rc Inr candidates_snd_subset by blast
    have w1c: "completion_results w1 = completion_results w"
      using rc by (rule random_choice_completions)
    have pk: "distinct (api_keys s)" "invalid_keys s \<subseteq> set (api_keys s)"
      using "1.prems"(1) by (simp_all add: pool_ok_def)
    show ?thesis
    proof (cases "fst (validate_api_key e sel w1)")
      case True
      with "1.prems"(2) False rc Inr
      have eq: "r = Inr sel"
        "s' = (fst (candidates s))\<lparr>current_client := Some sel,
                 used_keys := insert sel (used_keys (fst (candidates s)))\<rparr>"
        "w' = snd (validate_api_key e sel w1)"
        by (simp_all add: initialize_client.simps)
      show ?thesis
        using eq mem pk w1c
        by (simp add: pool_ok_def candidates_fst_invalid candidates_fst_api_keys
              validate_completions)
    next
      case F2: False
      let ?s1 = "(fst (candidates s))\<lparr>invalid_keys := insert sel (invalid_keys (fst (candidates s)))\<rparr>"
      have rec: "initialize_client e ?s1 (snd (validate_api_key e sel w1)) = (r, s', w')"
        using "1.prems"(2) False rc Inr F2 by (simp add: initialize_client.simps)
      have ok1: "pool_ok ?s1"
        using pk mem by (simp add: pool_ok_def candidates_fst_invalid candidates_fst_api_keys)
      from "1.IH"[OF False rc[symmetric] Inr F2 ok1 rec]
      show ?thesis
        by (simp add: candidates_fst_api_keys validate_completions w1c)
    qed
  qed
qed

lemma mark_invalid_ok: "client_ok s \<Longrightarrow> pool_ok (mark_invalid msg s)"
  by (auto simp: client_ok_def pool_ok_def mark_invalid_def Let_def split: option.splits)

lemma mark_invalid_api_keys: "api_keys (mark_invalid msg s) = api_keys s"
  by (simp add: mark_invalid_def Let_def split: option.splits)

lemma attempt_completions:
  "client_ok s \<Longrightarrow> attempt e req s w = (r, w1) \<Longrightarrow>
     completion_results w1 = completion_results w @ [r]"
  by (auto simp: client_ok_def attempt_def call_service_def Let_def completion_results_def
           split: option.splits)

definition outcome :: "(error + response option) \<Rightarrow> call_result list \<Rightarrow> nat \<Rightarrow> bool" where
  "outcome res new m =
     ((\<exists>resp fs. res = Inr (Some resp) \<and> new = fs @ [Success resp]
          \<and> list_all is_failure fs \<and> length new \<le> m)
      \<or> (\<exists>msg fs. res = Inl (GroqAPIError ''All API keys failed or are invalid'' (Some msg))
          \<and> new = fs @ [Failure msg] \<and> list_all is_failure fs \<and> length new = m)
      \<or> (res = Inl (GroqAPIError ''All API keys are invalid'' None)
          \<and> list_all is_failure new \<and> new \<noteq> [] \<and> length new < m))"

lemma outcome_step:
  assumes "outcome res new m"
  shows "outcome res (Failure msg # new) (Suc m)"
proof -
  from assms consider
    (a) resp fs where "res = Inr (Some resp)" "new = fs @ [Success resp]"
          "list_all is_failure fs" "length new \<le> m"
  | (b) msg' fs where "res = Inl (GroqAPIError ''All API keys failed or are invalid'' (Some msg'))"
          "new = fs @ [Failure msg']" "list_all is_failure fs" "length new = m"
  | (c) "res = Inl (GroqAPIError ''All API keys are invalid'' None)"
          "list_all is_failure new" "new \<noteq> []" "length new < m"
    unfolding outcome_def by blast
  then show ?thesis
  proof cases
    case a
    have "Failure msg # new = (Failure msg # fs) @ [Success resp]" using a by simp
    moreover have "list_all is_failure (Failure msg # fs)" using a by (simp add: is_failure_def)
    ultimately show ?thesis unfolding outcome_def using a by (metis length_Cons Suc_le_mono)
  next
    case b
    have "Failure msg # new = (Failure msg # fs) @ [Failure msg']" using b by simp
    moreover have "list_all is_failure (Failure msg # fs)" using b by (simp add: is_failure_def)
    ultimately show ?thesis unfolding outcome_def using b by (metis length_Cons)
  next
    case c
    then show ?thesis unfolding outcome_def by (simp add: is_failure_def)
  qed
qed

lemma completion_loop_outcome:
  "client_ok s \<Longrightarrow> n = length (api_keys s) \<Longrightarrow> retries < n \<Longrightarrow>
   completion_loop e req n retries s w = (res, s', w') \<Longrightarrow>
   \<exists>new. completion_results w' = completion_results w @ new \<and> outcome res new (n - retries)"
proof (induction e req n retries s w rule: completion_loop.induct)
  case (1 e req n retries s w)
  obtain r w1 where at: "attempt e req s w = (r, w1)" by (cases "attempt e req s w")
  have c1: "completion_results w1 = completion_results w @ [r]"
    by (rule attempt_completions[OF "1.prems"(1) at])
  show ?case
  proof (cases r)
    case (Success resp)
    with "1.prems" at have "res = Inr (Some resp)" "w' = w1"
      by (simp_all add: completion_loop.simps)
    moreover have "outcome (Inr (Some resp)) [Success resp] (n - retries)"
      unfolding outcome_def using "1.prems"(3) by auto
    ultimately show ?thesis using c1 Success by auto
  next
    case (Failure msg)
    show ?thesis
    proof (cases "Suc retries < n")
      case False
      with "1.prems" at Failure
      have "res = Inl (GroqAPIError ''All API keys failed or are invalid'' (Some msg))" "w' = w1"
        by (simp_all add: completion_loop.simps)
      moreover have "n - retries = 1" using False "1.prems"(3) by simp
      then have "outcome (Inl (GroqAPIError ''All API keys failed or are invalid'' (Some msg)))
                   [Failure msg] (n - retries)"
        unfolding outcome_def by auto
      ultimately show ?thesis using c1 Failure by auto
    next
      case True
      obtain ri s2 w2 where ic: "initialize_client e (mark_invalid msg s) w1 = (ri, s2, w2)"
        by (cases "initialize_client e (mark_invalid msg s) w1") auto
      have pk: "pool_ok (mark_invalid msg s)" using "1.prems"(1) by (rule mark_invalid_ok)
      from initialize_client_props[OF pk ic]
      have ok2: "pool_ok s2" and keys2: "api_keys s2 = api_keys s"
        and c2: "completion_results w2 = completion_results w1"
        and alt: "ri = Inl (GroqAPIError ''All API keys are invalid'' None)
                  \<or> (\<exists>k. ri = Inr k \<and> current_client s2 = Some k \<and> k \<in> set (api_keys s))"
        by (simp_all add: mark_invalid_api_keys)
      from alt show ?thesis
      proof
        assume e1: "ri = Inl (GroqAPIError ''All API keys are invalid'' None)"
        with "1.prems" at Failure True ic
        have "res = Inl (GroqAPIError ''All API keys are invalid'' None)" "w' = w2"
          by (simp_all add: completion_loop.simps)
        moreover have "outcome (Inl (GroqAPIError ''All API keys are invalid'' None))
                   [Failure msg] (n - retries)"
          unfolding outcome_def using True by (simp add: is_failure_def)
        ultimately show ?thesis using c1 c2 Failure by auto
      next
        assume "\<exists>k. ri = Inr k \<and> current_client s2 = Some k \<and> k \<in> set (api_keys s)"
        then obtain k where k: "ri = Inr k" "current_client s2 = Some k" "k \<in> set (api_keys s)"
          by blast
        have ok: "client_ok s2"
          using ok2 keys2 k "1.prems"(1) by (simp add: client_ok_def)
        have rec: "completion_loop e req n (Suc retries) s2 w2 = (res, s', w')"
          using "1.prems" at Failure True ic k by (simp add: completion_loop.simps)
        have nlt: "\<not> \<not> retries < n" using "1.prems"(3) by simp
        have n2: "n = length (api_keys s2)" using "1.prems"(2) keys2 by simp
        from "1.IH"[OF nlt at[symmetric] Failure True ic[symmetric] k(1) refl ok n2 True rec]
        obtain new where new: "completion_results w' = completion_results w2 @ new"
          "outcome res new (n - Suc retries)" by blast
        have "outcome res (Failure msg # new) (Suc (n - Suc retries))"
          using new(2) by (rule outcome_step)
        moreover have "Suc (n - Suc retries) = n - retries" using True by simp
        ultimately have "outcome res (Failure msg # new) (n - retries)" by simp
        moreover have "completion_results w' = completion_results w @ (Failure msg # new)"
          using new(1) c2 c1 Failure by simp
        ultimately show ?thesis by blast
      qed
    qed
  qed
qed

text \<open>
  The invariant holds in every client that the constructor returns for keys that are
  distinct once stripped, and every call of \<open>create_chat_completion\<close> keeps it.
\<close>

lemma MultiGroqClient_ok:
  assumes "distinct (map strip (filter is_valid_key_format keys))"
    and "MultiGroqClient e keys w = (Inr s, w')"
  shows "client_ok s"
proof -
  let ?ks = "map strip (filter is_valid_key_format keys)"
  let ?s0 = "\<lparr>api_keys = ?ks, current_client = None, used_keys = {}, invalid_keys = {}\<rparr>"
  from assms(2) have ne: "keys \<noteq> []" "?ks \<noteq> []"
    by (auto simp: MultiGroqClient_def Let_def split: if_splits)
  obtain r s1 w1 where run: "initialize_client e ?s0 w = (r, s1, w1)"
    by (cases "initialize_client e ?s0 w") auto
  with assms(2) ne have r: "s1 = s" "\<exists>k. r = Inr k"
    by (auto simp: MultiGroqClient_def Let_def split: sum.splits)
  have "pool_ok ?s0" using assms(1) by (simp add: pool_ok_def)
  from initialize_client_props[OF this run] r ne(2) show ?thesis
    by (auto simp: client_ok_def simp del: map_is_Nil_conv)
qed

lemma initialize_client_error_current:
  "initialize_client e s w = (Inl r, s', w') \<Longrightarrow> current_client s' = current_client s"
proof (induction e s w rule: initialize_client.induct)
  case (1 e s w)
  show ?case
  proof (cases "all_invalid s")
    case True
    with "1.prems" show ?thesis by (simp add: initialize_client.simps)
  next
    case False
    obtain rr w1 where rc: "random_choice e (snd (candidates s)) w = (rr, w1)"
      by (cases "random_choice e (snd (candidates s)) w")
    show ?thesis
    proof (cases rr)
      case (Inl err)
      with "1.prems" False rc show ?thesis
        by (auto simp: initialize_client.simps candidates_fst_current)
    next
      case (Inr sel)
      show ?thesis
      proof (cases "fst (validate_api_key e sel w1)")
        case True
        with "1.prems" False rc Inr show ?thesis
          by (simp add: initialize_client.simps)
      next
        case F2: False
        have "initialize_client e
                ((fst (candidates s))\<lparr>invalid_keys :=
                    insert sel (invalid_keys (fst (candidates s)))\<rparr>)
                (snd (validate_api_key e sel w1)) = (Inl r, s', w')"
          using "1.prems" False rc Inr F2 by (simp add: initialize_client.simps)
        from "1.IH"[OF False rc[symmetric] Inr F2 this]
        show ?thesis by (simp add: candidates_fst_current)
      qed
    qed
  qed
qed

lemma completion_loop_ok:
  "client_ok s \<Longrightarrow> completion_loop e req n retries s w = (res, s', w') \<Longrightarrow> client_ok s'"
proof (induction e req n retries s w rule: completion_loop.induct)
  case (1 e req n retries s w)
  show ?case
  proof (cases "retries < n")
    case False
    with "1.prems" show ?thesis by (simp add: completion_loop.simps)
  next
    case True
    obtain r w1 where at: "attempt e req s w = (r, w1)" by (cases "attempt e req s w")
    show ?thesis
    proof (cases r)
      case (Success resp)
      with "1.prems" True at show ?thesis by (simp add: completion_loop.simps)
    next
      case (Failure msg)
      have pk: "pool_ok (mark_invalid msg s)" using "1.prems"(1) by (rule mark_invalid_ok)
      have cur: "current_client (mark_invalid msg s) = current_client s"
        by (simp add: mark_invalid_def Let_def split: option.splits)
      have mk: "client_ok (mark_invalid msg s)"
        using pk cur "1.prems"(1)
        by (simp add: client_ok_def mark_invalid_api_keys cong: option.case_cong)
      show ?thesis
      proof (cases "Suc retries < n")
        case False
        with "1.prems" True at Failure mk show ?thesis by (simp add: completion_loop.simps)
      next
        case T2: True
        obtain ri s2 w2 where ic: "initialize_client e (mark_invalid msg s) w1 = (ri, s2, w2)"
          by (cases "initialize_client e (mark_invalid msg s) w1") auto
        from initialize_client_props[OF pk ic]
        have ok2: "pool_ok s2" and keys2: "api_keys s2 = api_keys s"
          and alt: "ri = Inl (GroqAPIError ''All API keys are invalid'' None)
                    \<or> (\<exists>k. ri = Inr k \<and> current_client s2 = Some k \<and> k \<in> set (api_keys s))"
          by (simp_all add: mark_invalid_api_keys)
        from alt show ?thesis
        proof
          assume e1: "ri = Inl (GroqAPIError ''All API keys are invalid'' None)"
          with "1.prems" True at Failure T2 ic have "s' = s2"
            by (simp add: completion_loop.simps)
          moreover have "current_client s2 = current_client s"
            using initialize_client_error_current[OF ic[unfolded e1]] cur by simp
          ultimately show ?thesis
            using ok2 keys2 "1.prems"(1) by (simp add: client_ok_def cong: option.case_cong)
        next
          assume "\<exists>k. ri = Inr k \<and> current_client s2 = Some k \<and> k \<in> set (api_keys s)"
          then obtain k where k: "ri = Inr k" "current_client s2 = Some k" "k \<in> set (api_keys s)"
            by blast
          have ok: "client_ok s2"
            using ok2 keys2 k "1.prems"(1) by (simp add: client_ok_def)
          have rec: "completion_loop e req n (Suc retries) s2 w2 = (res, s', w')"
            using "1.prems" True at Failure T2 ic k by (simp add: completion_loop.simps)
          have nlt: "\<not> \<not> retries < n" using True by simp
          from "1.IH"[OF nlt at[symmetric] Failure T2 ic[symmetric] k(1) refl ok rec]
          show ?thesis .
        qed
      qed
    qed
  qed
qed

lemma create_chat_completion_ok:
  "client_ok s \<Longrightarrow> create_chat_completion e req s w = (res, s', w') \<Longrightarrow> client_ok s'"
  unfolding create_chat_completion_def by (rule completion_loop_ok)

text \<open>
  "All API keys are invalid" is raised by the selection alone, and only when the test
  \<open>len(self.invalid_keys) == len(self.api_keys)\<close> holds: on a pool that holds no key
  twice, every key of the pool is then in the invalid set. The error leaves
  \<open>create_chat_completion\<close> with the client in that state.
\<close>

lemma initialize_client_all_invalid:
  "pool_ok s \<Longrightarrow>
   initialize_client e s w = (Inl (GroqAPIError ''All API keys are invalid'' None), s', w') \<Longrightarrow>
   invalid_keys s' = set (api_keys s) \<and> api_keys s' = api_keys s"
proof (induction e s w rule: initialize_client.induct)
  case (1 e s w)
  have pk: "distinct (api_keys s)" "invalid_keys s \<subseteq> set (api_keys s)"
    using "1.prems"(1) by (simp_all add: pool_ok_def)
  show ?case
  proof (cases "all_invalid s")
    case True
    with "1.prems"(2) have same: "s' = s" by (simp add: initialize_client.simps)
    from True have "card (invalid_keys s) = length (api_keys s)" by (simp add: all_invalid_def)
    also have "length (api_keys s) = card (set (api_keys s))"
      using pk(1) by (simp add: distinct_card)
    finally have "card (invalid_keys s) = card (set (api_keys s))" .
    with pk(2) have "invalid_keys s = set (api_keys s)"
      by (simp add: card_subset_eq)
    with same show ?thesis by simp
  next
    case False
    have ne: "snd (candidates s) \<noteq> []"
      using pool_ok_candidates_nonempty "1.prems"(1) False by blast
    obtain rr w1 where rc: "random_choice e (snd (candidates s)) w = (rr, w1)"
      by (cases "random_choice e (snd (candidates s)) w")
    from rc ne obtain sel where Inr: "rr = Inr sel"
      by (auto simp: random_choice_def)
    have mem: "sel \<in> set (api_keys s) - invalid_keys s"
      using random_choice_mem rc Inr candidates_snd_subset by blast
    show ?thesis
    proof (cases "fst (validate_api_key e sel w1)")
      case True
      with "1.prems"(2) False rc Inr show ?thesis by (simp add: initialize_client.simps)
    next
      case F2: False
      let ?s1 = "(fst (candidates s))\<lparr>invalid_keys := insert sel (invalid_keys (fst (candidates s)))\<rparr>"
      have rec: "initialize_client e ?s1 (snd (validate_api_key e sel w1))
                   = (Inl (GroqAPIError ''All API keys are invalid'' None), s', w')"
        using "1.prems"(2) False rc Inr F2 by (simp add: initialize_client.simps)
      have ok1: "pool_ok ?s1"
        using pk mem by (simp add: pool_ok_def candidates_fst_invalid candidates_fst_api_keys)
      from "1.IH"[OF False rc[symmetric] Inr F2 ok1 rec]
      show ?thesis by (simp add: candidates_fst_api_keys)
    qed
  qed
qed

lemma completion_loop_all_invalid:
  "client_ok s \<Longrightarrow>
   completion_loop e req n retries s w
     = (Inl (GroqAPIError ''All API keys are invalid'' None), s', w') \<Longrightarrow>
   invalid_keys s' = set (api_keys s) \<and> api_keys s' = api_keys s"
proof (induction e req n retries s w rule: completion_loop.induct)
  case (1 e req n retries s w)
  show ?case
  proof (cases "retries < n")
    case False
    with "1.prems" show ?thesis by (simp add: completion_loop.simps)
  next
    case True
    obtain r w1 where at: "attempt e req s w = (r, w1)" by (cases "attempt e req s w")
    show ?thesis
    proof (cases r)
      case (Success resp)
      with "1.prems" True at show ?thesis by (simp add: completion_loop.simps)
    next
      case (Failure msg)
      have pk: "pool_ok (mark_invalid msg s)" using "1.prems"(1) by (rule mark_invalid_ok)
      show ?thesis
      proof (cases "Suc retries < n")
        case False
        with "1.prems" True at Failure show ?thesis by (simp add: completion_loop.simps)
      next
        case T2: True
        obtain ri s2 w2 where ic: "initialize_client e (mark_invalid msg s) w1 = (ri, s2, w2)"
          by (cases "initialize_client e (mark_invalid msg s) w1") auto
        from initialize_client_props[OF pk ic]
        have ok2: "pool_ok s2" and keys2: "api_keys s2 = api_keys s"
          and alt: "ri = Inl (GroqAPIError ''All API keys are invalid'' None)
                    \<or> (\<exists>k. ri = Inr k \<and> current_client s2 = Some k \<and> k \<in> set (api_keys s))"
          by (simp_all add: mark_invalid_api_keys)
        from alt show ?thesis
        proof
          assume e1: "ri = Inl (GroqAPIError ''All API keys are invalid'' None)"
          with "1.prems" True at Failure T2 ic have "s' = s2"
            by (simp add: completion_loop.simps)
          with initialize_client_all_invalid[OF pk ic[unfolded e1]]
          show ?thesis by (simp add: mark_invalid_api_keys)
        next
          assume "\<exists>k. ri = Inr k \<and> current_client s2 = Some k \<and> k \<in> set (api_keys s)"
          then obtain k where k: "ri = Inr k" "current_client s2 = Some k" "k \<in> set (api_keys s)"
            by blast
          have ok: "client_ok s2"
            using ok2 keys2 k "1.prems"(1) by (simp add: client_ok_def)
          have rec: "completion_loop e req n (Suc retries) s2 w2
                       = (Inl (GroqAPIError ''All API keys are invalid'' None), s', w')"
            using "1.prems" True at Failure T2 ic k by (simp add: completion_loop.simps)
          have nlt: "\<not> \<not> retries < n" using True by simp
          from "1.IH"[OF nlt at[symmetric] Failure T2 ic[symmetric] k(1) refl ok rec]
          show ?thesis by (simp add: keys2)
        qed
      qed
    qed
  qed
qed

text \<open>
  On a pool that holds no key twice the selection does what it is written for: when
  the service rejects every probe, it raises \<open>GroqAPIError\<close>.
\<close>

definition rejects_probes :: "'q env \<Rightarrow> bool" where
  "rejects_probes e =
     (\<forall>n key. \<exists>msg. service e n key Probe = Failure msg
                  \<and> (contains (lower msg) ''invalid_api_key'' \<or> contains msg ''401''))"

lemma rejected_probe: "rejects_probes e \<Longrightarrow> \<not> fst (validate_api_key e key w)"
proof -
  assume "rejects_probes e"
  then obtain msg where "service e (length (calls w)) key Probe = Failure msg"
    "contains (lower msg) ''invalid_api_key'' \<or> contains msg ''401''"
    unfolding rejects_probes_def by blast
  then show ?thesis
    by (auto simp: validate_api_key_def call_service_def Let_def)
qed

lemma initialize_client_never_selects:
  "rejects_probes e \<Longrightarrow> initialize_client e s w = (r, s', w') \<Longrightarrow> r \<noteq> Inr k"
proof (induction e s w rule: initialize_client.induct)
  case (1 e s w)
  show ?case
  proof (cases "all_invalid s")
    case True
    with "1.prems" show ?thesis by (auto simp: initialize_client.simps)
  next
    case False
    obtain rr w1 where rc: "random_choice e (snd (candidates s)) w = (rr, w1)"
      by (cases "random_choice e (snd (candidates s)) w")
    show ?thesis
    proof (cases rr)
      case (Inl err)
      with "1.prems" False rc show ?thesis by (auto simp: initialize_client.simps)
    next
      case (Inr sel)
      have F2: "\<not> fst (validate_api_key e sel w1)"
        using "1.prems"(1) by (rule rejected_probe)
      have "initialize_client e
              ((fst (candidates s))\<lparr>invalid_keys := insert sel (invalid_keys (fst (candidates s)))\<rparr>)
              (snd (validate_api_key e sel w1)) = (r, s', w')"
        using "1.prems" False rc Inr F2 by (simp add: initialize_client.simps)
      from "1.IH"[OF False rc[symmetric] Inr F2 "1.prems"(1) this]
      show ?thesis .
    qed
  qed
qed

lemma initialize_client_all_rejected:
  assumes "pool_ok s" and "rejects_probes e" and "initialize_client e s w = (r, s', w')"
  shows "r = Inl (GroqAPIError ''All API keys are invalid'' None)"
  using initialize_client_props[OF assms(1,3)] initialize_client_never_selects[OF assms(2,3)]
  by auto

subsection \<open>Example environments and clients\<close>

text \<open>
  \<open>env_k1_rejected\<close>: the service rejects the key \<open>k1\<close> with an authentication error and
  serves every other key. \<open>env_401\<close>: it rejects every call. \<open>env_rate_limited\<close>: the
  first call fails with a rate limit, every later call succeeds.
\<close>

definition env_k1_rejected :: "'q env" where
  "env_k1_rejected =
     \<lparr>service = (\<lambda>n key req. if key = ''k1'' then Failure ''Error code: 401''
                               else Success [''ok'']),
      rand = (\<lambda>n. 0)\<rparr>"

definition env_401 :: "'q env" where
  "env_401 = \<lparr>service = (\<lambda>n key req. Failure ''Error code: 401''), rand = (\<lambda>n. 0)\<rparr>"

definition env_rate_limited :: "'q env" where
  "env_rate_limited =
     \<lparr>service = (\<lambda>n key req. if n = 0 then Failure ''rate limit reached''
                               else Success [''[]'']),
      rand = (\<lambda>n. 0)\<rparr>"

definition fresh_world :: "'q world" where
  "fresh_world = \<lparr>calls = [], draws = 0\<rparr>"

definition fresh_pool :: "string list \<Rightarrow> client" where
  "fresh_pool ks = \<lparr>api_keys = ks, current_client = None, used_keys = {}, invalid_keys = {}\<rparr>"

definition client_on_k1 :: client where
  "client_on_k1 =
     \<lparr>api_keys = [''k1'', ''k2''], current_client = Some ''k1'',
      used_keys = {''k1''}, invalid_keys = {}\<rparr>"

lemmas client_eval =
  initialize_client.simps completion_loop.simps create_chat_completion_def attempt_def
  mark_invalid_def all_invalid_def candidates_def random_choice_def validate_api_key_def
  call_service_def lower_def lower_char_def is_upper_def Let_def
  env_k1_rejected_def env_401_def env_rate_limited_def fresh_world_def fresh_pool_def
  client_on_k1_def

subsection \<open>Claims about the credential pool and the completion client\<close>

text \<open>
  C2. Whatever the pool, the service and the random draws: when \<open>_initialize_client\<close>
  returns a key, that key is not in the invalid set at the time of return, it is in the
  used set, it is a key of the pool and it is the key of the current client.
\<close>

theorem initialize_client_selected:
  "initialize_client e s w = (Inr k, s', w') \<Longrightarrow>
     k \<notin> invalid_keys s' \<and> k \<in> used_keys s' \<and> k \<in> set (api_keys s)
     \<and> current_client s' = Some k \<and> api_keys s' = api_keys s"
proof (induction e s w rule: initialize_client.induct)
  case (1 e s w)
  show ?case
  proof (cases "all_invalid s")
    case True
    with "1.prems" show ?thesis by (simp add: initialize_client.simps)
  next
    case False
    obtain r w1 where rc: "random_choice e (snd (candidates s)) w = (r, w1)"
      by (cases "random_choice e (snd (candidates s)) w")
    show ?thesis
    proof (cases r)
      case (Inl err)
      with "1.prems" False rc show ?thesis by (simp add: initialize_client.simps)
    next
      case (Inr sel)
      have mem: "sel \<in> set (api_keys s) - invalid_keys s"
        using random_choice_mem rc Inr candidates_snd_subset by blast
      show ?thesis
      proof (cases "fst (validate_api_key e sel w1)")
        case True
        with "1.prems" False rc Inr mem show ?thesis
          by (auto simp: initialize_client.simps candidates_fst_invalid candidates_fst_api_keys)
      next
        case F2: False
        have "initialize_client e
                ((fst (candidates s))\<lparr>invalid_keys := insert sel (invalid_keys (fst (candidates s)))\<rparr>)
                (snd (validate_api_key e sel w1)) = (Inr k, s', w')"
          using "1.prems" False rc Inr F2 by (simp add: initialize_client.simps)
        from "1.IH"[OF False rc[symmetric] Inr F2 this]
        show ?thesis by (simp add: candidates_fst_api_keys)
      qed
    qed
  qed
qed

theorem initialize_client_selected_witness:
  "initialize_client env_k1_rejected (fresh_pool [''k1'', ''k2'']) fresh_world
     = (Inr ''k2'',
        \<lparr>api_keys = [''k1'', ''k2''], current_client = Some ''k2'',
         used_keys = {''k2''}, invalid_keys = {''k1''}\<rparr>,
        \<lparr>calls = [(''k1'', Probe, Failure ''Error code: 401''),
                  (''k2'', Probe, Success [''ok''])],
         draws = 2\<rparr>)
   \<and> ''k2'' \<notin> {''k1''} \<and> ''k2'' \<in> {''k2''}"
proof -
  have run: "initialize_client env_k1_rejected (fresh_pool [''k1'', ''k2'']) fresh_world
     = (Inr ''k2'',
        \<lparr>api_keys = [''k1'', ''k2''], current_client = Some ''k2'',
         used_keys = {''k2''}, invalid_keys = {''k1''}\<rparr>,
        \<lparr>calls = [(''k1'', Probe, Failure ''Error code: 401''),
                  (''k2'', Probe, Success [''ok''])],
         draws = 2\<rparr>)"
    by (simp add: client_eval)
  from initialize_client_selected[OF run] run show ?thesis by simp
qed

text \<open>
  C3. The selection always returns (its termination is proved above). On a pool that
  holds the same key twice, with every probe rejected, it does not raise
  \<open>GroqAPIError\<close>: the invalid set has one element and the key list two, the test
  \<open>len(self.invalid_keys) == len(self.api_keys)\<close> fails, and \<open>random.choice\<close> raises
  \<open>IndexError\<close> on the empty list of candidates. The constructor passes the error on.
\<close>

theorem initialize_client_duplicate_key:
  "fst (MultiGroqClient env_401
          [''gsk_AAAAAAAAAAAAAAAAAAAAAAAAAAAAAAAA'', ''gsk_AAAAAAAAAAAAAAAAAAAAAAAAAAAAAAAA'']
          fresh_world) = Inl IndexError
   \<and> fst (initialize_client env_401 (fresh_pool [''k'', ''k'']) fresh_world) = Inl IndexError"
  by (simp add: MultiGroqClient_def is_valid_key_format_def strip_def is_space_def
        is_alnum_def is_lower_def is_digit_def client_eval)

text \<open>
  C1. On a client whose pool holds no key twice: the attempts of one call are at most
  as many as the keys of the pool, and the call ends in one of three ways. It returns
  the response of the first attempt that did not fail. Or every attempt failed, there
  were as many as keys, and it raises \<open>GroqAPIError\<close> "All API keys failed or are
  invalid" from the last error. Or every attempt failed, there were fewer than keys,
  and the rotation raised \<open>GroqAPIError\<close> "All API keys are invalid": every key of the
  pool has then been marked invalid, none is left to rotate to.
\<close>

theorem create_chat_completion_outcome:
  "client_ok s \<Longrightarrow> create_chat_completion e req s w = (res, s', w') \<Longrightarrow>
   \<exists>new. completion_results w' = completion_results w @ new
     \<and> length new \<le> length (api_keys s)
     \<and> ((\<exists>resp fs. res = Inr (Some resp) \<and> new = fs @ [Success resp]
            \<and> list_all is_failure fs)
        \<or> (\<exists>msg fs. res = Inl (GroqAPIError ''All API keys failed or are invalid'' (Some msg))
            \<and> new = fs @ [Failure msg] \<and> list_all is_failure fs
            \<and> length new = length (api_keys s))
        \<or> (res = Inl (GroqAPIError ''All API keys are invalid'' None)
            \<and> list_all is_failure new \<and> new \<noteq> []
            \<and> length new < length (api_keys s)
            \<and> invalid_keys s' = set (api_keys s) \<and> api_keys s' = api_keys s))"
proof -
  assume ok: "client_ok s" and run: "create_chat_completion e req s w = (res, s', w')"
  from ok have pos: "0 < length (api_keys s)" by (simp add: client_ok_def)
  from run have loop: "completion_loop e req (length (api_keys s)) 0 s w = (res, s', w')"
    by (simp add: create_chat_completion_def)
  from completion_loop_outcome[OF ok refl pos loop]
  obtain new where new: "completion_results w' = completion_results w @ new"
    "outcome res new (length (api_keys s))" by auto
  from new(2) have len: "length new \<le> length (api_keys s)"
    unfolding outcome_def by auto
  have marked: "invalid_keys s' = set (api_keys s) \<and> api_keys s' = api_keys s"
    if "res = Inl (GroqAPIError ''All API keys are invalid'' None)"
    using completion_loop_all_invalid[OF ok loop[unfolded that]] .
  from new len marked show ?thesis unfolding outcome_def by auto
qed

theorem create_chat_completion_outcome_witness:
  "client_ok client_on_k1
   \<and> fst (create_chat_completion env_rate_limited () client_on_k1 fresh_world)
       = Inr (Some [''[]''])
   \<and> completion_results
        (snd (snd (create_chat_completion env_rate_limited () client_on_k1 fresh_world)))
       = completion_results (fresh_world :: unit world) @ [Failure ''rate limit reached'', Success [''[]'']]
   \<and> length [Failure ''rate limit reached'', Success [''[]'']] \<le> length (api_keys client_on_k1)"
proof -
  have ok: "client_ok client_on_k1"
    by (simp add: client_ok_def pool_ok_def client_on_k1_def)
  obtain res s' w' where
    run: "create_chat_completion env_rate_limited () client_on_k1 fresh_world = (res, s', w')"
    by (cases "create_chat_completion env_rate_limited () client_on_k1 fresh_world") auto
  from create_chat_completion_outcome[OF ok run]
  obtain new where "completion_results w' = completion_results (fresh_world :: unit world) @ new"
    "length new \<le> length (api_keys client_on_k1)" by blast
  moreover have "res = Inr (Some [''[]''])"
    "completion_results w' = [Failure ''rate limit reached'', Success [''[]'']]"
    using run by (auto simp: client_eval completion_results_def)
  moreover have "completion_results (fresh_world :: unit world) = []"
    by (simp add: completion_results_def fresh_world_def)
  ultimately show ?thesis using ok run by simp
qed

text \<open>
  The claim as the specification states it fails on a pool of two distinct keys that the
  service rejects: the one attempt fails, the rotation finds the other key rejected by
  its probe, and the call raises "All API keys are invalid" after one attempt, not
  "All API keys failed or are invalid" from the last error.
\<close>

theorem create_chat_completion_all_invalid_counterexample:
  "client_ok client_on_k1
   \<and> fst (create_chat_completion env_401 () client_on_k1 fresh_world)
       = Inl (GroqAPIError ''All API keys are invalid'' None)
   \<and> completion_results
        (snd (snd (create_chat_completion env_401 () client_on_k1 fresh_world)))
       = [Failure ''Error code: 401'']"
  by (simp add: client_ok_def pool_ok_def completion_results_def client_eval)

section \<open>Python values, \<open>str\<close> and the normalizers (\<open>sscript.py\<close>, \<open>main_v2.py\<close>)\<close>

text \<open>
  The values that \<open>json.loads\<close> builds and that sit in the cells of a DataFrame. A float
  is given by the text \<open>str\<close> prints for it (the code does no arithmetic on floats);
  \<open>PFloat ''nan''\<close> is NaN, the value pandas puts in a cell that has no data. A
  \<open>dict\<close> is the list of its items in insertion order.
\<close>

datatype pyval =
    PNone
  | PBool bool
  | PInt int
  | PFloat string
  | PStr string
  | PList "pyval list"
  | PDict "(string \<times> pyval) list"

text \<open>\<open>join sep xs\<close> is \<open>sep.join(xs)\<close>.\<close>

fun join :: "string \<Rightarrow> string list \<Rightarrow> string" where
  "join sep [] = []"
| "join sep [x] = x"
| "join sep (x # y # ys) = x @ sep @ join sep (y # ys)"

definition digit_char :: "nat \<Rightarrow> char" where
  "digit_char d = ''0123456789abcdef'' ! d"

fun str_nat :: "nat \<Rightarrow> string" where
  "str_nat n = (if n < 10 then [digit_char n] else str_nat (n div 10) @ [digit_char (n mod 10)])"

declare str_nat.simps [simp del]

definition str_int :: "int \<Rightarrow> string" where
  "str_int i = (if i < 0 then CHR ''-'' # str_nat (nat (- i)) else str_nat (nat i))"

text \<open>
  \<open>repr\<close> of an ASCII string: double quotes when the text holds a single quote and no
  double quote, single quotes otherwise; backslash, the quote, newline, return and tab
  are escaped, other control characters are written \<open>\xNN\<close>.
\<close>

definition repr_char :: "char \<Rightarrow> char \<Rightarrow> string" where
  "repr_char q c =
     (if c = CHR 0x5C then [CHR 0x5C, CHR 0x5C]
      else if c = q then [CHR 0x5C, q]
      else if c = CHR 0x0A then [CHR 0x5C, CHR ''n'']
      else if c = CHR 0x0D then [CHR 0x5C, CHR ''r'']
      else if c = CHR 0x09 then [CHR 0x5C, CHR ''t'']
      else if (of_char c :: nat) < 32 \<or> (of_char c :: nat) = 127
      then [CHR 0x5C, CHR ''x'', digit_char (of_char c div 16), digit_char (of_char c mod 16)]
      else [c])"

definition repr_str :: "string \<Rightarrow> string" where
  "repr_str s =
     (let q = (if CHR 0x27 \<in> set s \<and> CHR 0x22 \<notin> set s then CHR 0x22 else CHR 0x27)
      in [q] @ concat (map (repr_char q) s) @ [q])"

fun py_repr :: "pyval \<Rightarrow> string" where
  "py_repr PNone = ''None''"
| "py_repr (PBool b) = (if b then ''True'' else ''False'')"
| "py_repr (PInt i) = str_int i"
| "py_repr (PFloat t) = t"
| "py_repr (PStr s) = repr_str s"
| "py_repr (PList vs) = ''['' @ join '', '' (map py_repr vs) @ '']''"
| "py_repr (PDict kvs) =
     ''{'' @ join '', '' (map (\<lambda>kv. repr_str (fst kv) @ '': '' @ py_repr (snd kv)) kvs) @ ''}''"

text \<open>\<open>str(v)\<close>: the text itself for a string, \<open>repr\<close> for every other value.\<close>

definition py_str :: "pyval \<Rightarrow> string" where
  "py_str v = (case v of PStr s \<Rightarrow> s | _ \<Rightarrow> py_repr v)"

definition is_list :: "pyval \<Rightarrow> bool" where
  "is_list v = (case v of PList vs \<Rightarrow> True | _ \<Rightarrow> False)"

text \<open>\<open>pd.isna\<close> on one cell: \<open>None\<close> and NaN are missing, every other value is not.\<close>

definition pd_isna :: "pyval \<Rightarrow> bool" where
  "pd_isna v = (v = PNone \<or> v = PFloat ''nan'')"

text \<open>\<open>normalize_data\<close> of \<open>main_v2.py\<close>.\<close>

definition normalize_data :: "pyval \<Rightarrow> string" where
  "normalize_data v =
     (case v of
        PList vs \<Rightarrow> join '', '' (map py_str vs)
      | _ \<Rightarrow> if pd_isna v \<or> v = PNone then '''' else py_str v)"

text \<open>
  \<open>normalize_json_data\<close> of \<open>sscript.py\<close>. A value that is not a list gives \<open>[]\<close>. A
  record that is not a \<open>dict\<close> has no \<open>items\<close>: \<open>AttributeError\<close>. The keys of a
  \<open>dict\<close> are distinct, so the new record has one item for each item of the old one.
\<close>

definition normalize_value :: "pyval \<Rightarrow> string" where
  "normalize_value v =
     (case v of
        PList vs \<Rightarrow> join '', '' (map py_str vs)
      | PNone \<Rightarrow> ''''
      | _ \<Rightarrow> py_str v)"

definition normalize_record :: "(string \<times> pyval) list \<Rightarrow> (string \<times> string) list" where
  "normalize_record items = map (\<lambda>kv. (fst kv, normalize_value (snd kv))) items"

fun normalize_records :: "pyval list \<Rightarrow> error + (string \<times> string) list list" where
  "normalize_records [] = Inr []"
| "normalize_records (PDict items # rest) =
     (case normalize_records rest of
        Inl err \<Rightarrow> Inl err
      | Inr rs \<Rightarrow> Inr (normalize_record items # rs))"
| "normalize_records (v # rest) = Inl AttributeError"

definition normalize_json_data :: "pyval \<Rightarrow> error + (string \<times> string) list list" where
  "normalize_json_data data =
     (case data of PList records \<Rightarrow> normalize_records records | _ \<Rightarrow> Inr [])"

section \<open>DataFrames and the store (\<open>main_v2.py\<close>)\<close>

text \<open>
  A DataFrame is its list of column labels and its rows; \<open>r c\<close> is the cell of row \<open>r\<close>
  in column \<open>c\<close>, read only for the labels in \<open>columns\<close>.
\<close>

record 'v dataframe =
  columns :: "string list"
  rows :: "(string \<Rightarrow> 'v) list"

definition required_columns :: "string list" where
  "required_columns =
     [''Name'', ''Emails'', ''Mobile'', ''Present Salary'', ''Expected Salary'',
      ''Date of Birth'', ''Permanent Address'', ''Company with Duration'',
      ''Job Title with Duration'', ''Institution'', ''Graduation'',
      ''Total Years of experience'']"

text \<open>\<open>df[col] = ''\<close> for a label that is not a column yet: a new last column.\<close>

definition add_column :: "string \<Rightarrow> 'v \<Rightarrow> 'v dataframe \<Rightarrow> 'v dataframe" where
  "add_column col v df =
     \<lparr>columns = columns df @ [col], rows = map (\<lambda>r. r(col := v)) (rows df)\<rparr>"

text \<open>\<open>if col not in df.columns: df[col] = v\<close>.\<close>

definition ensure_column :: "'v \<Rightarrow> 'v dataframe \<Rightarrow> string \<Rightarrow> 'v dataframe" where
  "ensure_column v df col = (if col \<notin> set (columns df) then add_column col v df else df)"

text \<open>
  \<open>process_and_normalize_df\<close>: every cell of every column goes through
  \<open>normalize_data\<close>; each required column that is missing is added, empty; the result
  is the frame restricted to the required columns, in their order.
\<close>

definition process_and_normalize_df :: "pyval dataframe \<Rightarrow> string dataframe" where
  "process_and_normalize_df df =
     (let df1 = \<lparr>columns = columns df, rows = map (\<lambda>r c. normalize_data (r c)) (rows df)\<rparr>;
          df2 = foldl (ensure_column '''') df1 required_columns
      in \<lparr>columns = required_columns, rows = rows df2\<rparr>)"

text \<open>\<open>col.lower().replace(' ', '_')\<close>.\<close>

definition db_column_name :: "string \<Rightarrow> string" where
  "db_column_name col = map (\<lambda>c. if c = CHR '' '' then CHR ''_'' else c) (lower col)"

text \<open>
  \<open>df.columns = new\<close>: the labels change, the cells stay; the cell under a new label is
  the cell that stood under the old label at the same position.
\<close>

definition set_columns :: "string list \<Rightarrow> 'v dataframe \<Rightarrow> 'v dataframe" where
  "set_columns new df =
     \<lparr>columns = new,
      rows = map (\<lambda>r c. case map_of (zip new (columns df)) c of
                           Some old \<Rightarrow> r old | None \<Rightarrow> r c) (rows df)\<rparr>"

text \<open>
  The table \<open>resumes\<close> of \<open>init_db\<close>. Every value the code inserts is a string. The
  columns \<open>emails\<close> and \<open>mobile\<close> are \<open>UNIQUE\<close>; \<open>id\<close> is generated.
\<close>

record resume =
  row_id :: nat
  name :: string
  emails :: string
  mobile :: string
  present_salary :: string
  expected_salary :: string
  date_of_birth :: string
  permanent_address :: string
  company_with_duration :: string
  job_title_with_duration :: string
  institution :: string
  graduation :: string
  total_years_of_experience :: string
  created_at :: string

type_synonym db = "resume list"

datatype db_error = IntegrityError

text \<open>
  \<open>cursor.execute(insert_sql, values)\<close>: the row is refused when a stored row has the
  same \<open>emails\<close> or the same \<open>mobile\<close>; else it is stored under the next id.
\<close>

definition violates_unique :: "db \<Rightarrow> resume \<Rightarrow> bool" where
  "violates_unique tbl new =
     list_ex (\<lambda>old. emails old = emails new \<or> mobile old = mobile new) tbl"

definition next_id :: "db \<Rightarrow> nat" where
  "next_id tbl = Suc (foldr max (map row_id tbl) 0)"

definition execute_insert :: "db \<Rightarrow> resume \<Rightarrow> db_error + db" where
  "execute_insert tbl new =
     (if violates_unique tbl new then Inl IntegrityError
      else Inr (tbl @ [new\<lparr>row_id := next_id tbl\<rparr>]))"

text \<open>The \<open>values\<close> list of one row of the renamed frame, with the time of the call.\<close>

definition row_values :: "string \<Rightarrow> (string \<Rightarrow> string) \<Rightarrow> resume" where
  "row_values current_time row =
     \<lparr>row_id = 0,
      name = row ''name'', emails = row ''emails'', mobile = row ''mobile'',
      present_salary = row ''present_salary'', expected_salary = row ''expected_salary'',
      date_of_birth = row ''date_of_birth'', permanent_address = row ''permanent_address'',
      company_with_duration = row ''company_with_duration'',
      job_title_with_duration = row ''job_title_with_duration'',
      institution = row ''institution'', graduation = row ''graduation'',
      total_years_of_experience = row ''total_years_of_experience'',
      created_at = current_time\<rparr>"

text \<open>
  The loop of \<open>insert_to_db\<close> over \<open>df.iterrows()\<close>: an \<open>IntegrityError\<close> skips the row
  and leaves the table as it is.
\<close>

fun insert_rows :: "string \<Rightarrow> (string \<Rightarrow> string) list \<Rightarrow> db \<Rightarrow> nat \<Rightarrow> db \<times> nat" where
  "insert_rows current_time [] tbl inserted_records = (tbl, inserted_records)"
| "insert_rows current_time (row # rest) tbl inserted_records =
     (case execute_insert tbl (row_values current_time row) of
        Inl IntegrityError \<Rightarrow> insert_rows current_time rest tbl inserted_records
      | Inr tbl' \<Rightarrow> insert_rows current_time rest tbl' (inserted_records + 1))"

text \<open>
  \<open>insert_to_db\<close>, given the time of the call and the table: the new table and the pair
  \<open>(inserted_records, total_records)\<close>.
\<close>

definition insert_to_db :: "string \<Rightarrow> pyval dataframe \<Rightarrow> db \<Rightarrow> (nat \<times> nat) \<times> db" where
  "insert_to_db current_time df0 tbl =
     (let df1 = process_and_normalize_df df0;
          df = set_columns (map db_column_name (columns df1)) df1;
          total_records = length (rows df);
          (tbl', inserted_records) = insert_rows current_time (rows df) tbl 0
      in ((inserted_records, total_records), tbl'))"

text \<open>The records \<open>insert_to_db\<close> offers to the table, in the order of the rows.\<close>

definition records_of :: "string \<Rightarrow> pyval dataframe \<Rightarrow> resume list" where
  "records_of current_time df0 =
     (let df1 = process_and_normalize_df df0
      in map (row_values current_time)
           (rows (set_columns (map db_column_name (columns df1)) df1)))"

lemma db_names:
  "map db_column_name required_columns =
     [''name'', ''emails'', ''mobile'', ''present_salary'', ''expected_salary'',
      ''date_of_birth'', ''permanent_address'', ''company_with_duration'',
      ''job_title_with_duration'', ''institution'', ''graduation'',
      ''total_years_of_experience'']"
  by (simp add: required_columns_def db_column_name_def lower_def lower_char_def)

lemma add_missing_columns:
  "rows (foldl (ensure_column v) df cols)
     = map (\<lambda>r c. if c \<in> set cols \<and> c \<notin> set (columns df) then v else r c) (rows df)"
proof (induction cols arbitrary: df)
  case Nil
  show ?case by simp
next
  case (Cons col cols)
  show ?case
  proof (cases "col \<in> set (columns df)")
    case True
    then have same: "ensure_column v df col = df" by (simp add: ensure_column_def)
    have "rows (foldl (ensure_column v) df (col # cols)) = rows (foldl (ensure_column v) df cols)"
      using same by simp
    also have "\<dots> = map (\<lambda>r c. if c \<in> set cols \<and> c \<notin> set (columns df) then v else r c) (rows df)"
      by (rule Cons.IH)
    also have "\<dots> = map (\<lambda>r c. if c \<in> set (col # cols) \<and> c \<notin> set (columns df) then v else r c)
                        (rows df)"
      using True by (intro map_cong refl) (auto simp: fun_eq_iff)
    finally show ?thesis .
  next
    case False
    then have new: "ensure_column v df col = add_column col v df" by (simp add: ensure_column_def)
    have "rows (foldl (ensure_column v) df (col # cols))
            = rows (foldl (ensure_column v) (add_column col v df) cols)"
      using new by simp
    also have "\<dots> = map (\<lambda>r c. if c \<in> set cols \<and> c \<notin> set (columns (add_column col v df)) then v else r c)
              (rows (add_column col v df))"
      by (rule Cons.IH)
    also have "\<dots> = map (\<lambda>r c. if c \<in> set (col # cols) \<and> c \<notin> set (columns df) then v else r c)
                        (rows df)"
      using False by (auto simp: add_column_def fun_eq_iff)
    finally show ?thesis .
  qed
qed

lemma process_and_normalize_df_rows:
  "rows (process_and_normalize_df df)
     = map (\<lambda>r c. if c \<in> set required_columns \<and> c \<notin> set (columns df) then ''''
                    else normalize_data (r c)) (rows df)"
  by (simp add: process_and_normalize_df_def Let_def add_missing_columns comp_def)

lemma process_and_normalize_df_columns:
  "columns (process_and_normalize_df df) = required_columns"
  by (simp add: process_and_normalize_df_def Let_def)

lemma violates_unique_row_id [simp]:
  "violates_unique tbl (x\<lparr>row_id := k\<rparr>) = violates_unique tbl x"
  by (simp add: violates_unique_def)

lemma violates_unique_append:
  "violates_unique (tbl @ extra) x = (violates_unique tbl x \<or> violates_unique extra x)"
  by (simp add: violates_unique_def list_ex_iff) blast

lemma insert_rows_appends:
  "insert_rows t rs tbl n = (tbl', m) \<Longrightarrow>
     \<exists>added. tbl' = tbl @ added \<and> m = n + length added
       \<and> list_all (\<lambda>x. \<not> violates_unique tbl x) added"
proof (induction rs arbitrary: tbl n)
  case Nil
  then show ?case by simp
next
  case (Cons row rest)
  show ?case
  proof (cases "violates_unique tbl (row_values t row)")
    case True
    with Cons.prems have "insert_rows t rest tbl n = (tbl', m)"
      by (simp add: execute_insert_def)
    from Cons.IH[OF this] show ?thesis .
  next
    case False
    let ?new = "(row_values t row)\<lparr>row_id := next_id tbl\<rparr>"
    from False Cons.prems have "insert_rows t rest (tbl @ [?new]) (n + 1) = (tbl', m)"
      by (simp add: execute_insert_def)
    from Cons.IH[OF this] obtain added where
      a: "tbl' = (tbl @ [?new]) @ added" "m = n + 1 + length added"
         "list_all (\<lambda>x. \<not> violates_unique (tbl @ [?new]) x) added"
      by auto
    have "list_all (\<lambda>x. \<not> violates_unique tbl x) (?new # added)"
      using a(3) False by (auto simp: list_all_iff violates_unique_append)
    with a(1,2) show ?thesis
      by (intro exI[of _ "?new # added"]) simp
  qed
qed

lemma insert_rows_pair:
  assumes "\<not> violates_unique tbl (row_values t ra)"
    and "emails (row_values t ra) = emails (row_values t rb)
         \<or> mobile (row_values t ra) = mobile (row_values t rb)"
  shows "insert_rows t [ra, rb] tbl 0 = (tbl @ [(row_values t ra)\<lparr>row_id := next_id tbl\<rparr>], 1)"
proof -
  have "violates_unique (tbl @ [(row_values t ra)\<lparr>row_id := next_id tbl\<rparr>]) (row_values t rb)"
    using assms(2) by (auto simp: violates_unique_append violates_unique_def)
  with assms(1) show ?thesis by (simp add: execute_insert_def)
qed

lemma insert_to_db_unfold:
  "insert_to_db t df tbl =
     ((snd (insert_rows t (rows (set_columns (map db_column_name required_columns)
                                   (process_and_normalize_df df))) tbl 0),
       length (rows df)),
      fst (insert_rows t (rows (set_columns (map db_column_name required_columns)
                                   (process_and_normalize_df df))) tbl 0))"
  by (simp add: insert_to_db_def Let_def process_and_normalize_df_columns set_columns_def
        process_and_normalize_df_rows split: prod.splits)

lemma records_of_unfold:
  "records_of t df =
     map (row_values t)
       (rows (set_columns (map db_column_name required_columns) (process_and_normalize_df df)))"
  by (simp add: records_of_def Let_def process_and_normalize_df_columns)

lemma insert_to_db_records:
  "records_of t df = map (row_values t) rs \<Longrightarrow>
   rs = rows (set_columns (map db_column_name required_columns) (process_and_normalize_df df)) \<Longrightarrow>
   insert_to_db t df tbl = ((snd (insert_rows t rs tbl 0), length (rows df)),
                            fst (insert_rows t rs tbl 0))"
  by (simp add: insert_to_db_unfold)

lemma insert_to_db_pair:
  assumes recs: "records_of t df = [a, b]"
    and dup: "emails a = emails b \<or> mobile a = mobile b"
    and free: "\<not> violates_unique tbl a"
  shows "insert_to_db t df tbl = ((1, 2), tbl @ [a\<lparr>row_id := next_id tbl\<rparr>])"
proof -
  let ?rs = "rows (set_columns (map db_column_name required_columns) (process_and_normalize_df df))"
  from recs have m: "map (row_values t) ?rs = [a, b]" by (simp add: records_of_unfold)
  then obtain ra rb where rs: "?rs = [ra, rb]" and a: "row_values t ra = a"
    and b: "row_values t rb = b"
    by (auto simp: map_eq_Cons_conv)
  have len: "length (rows df) = 2"
  proof -
    have "length ?rs = length (rows df)"
      by (simp add: set_columns_def process_and_normalize_df_rows)
    with rs show ?thesis by simp
  qed
  have "insert_rows t [ra, rb] tbl 0 = (tbl @ [(row_values t ra)\<lparr>row_id := next_id tbl\<rparr>], 1)"
    by (rule insert_rows_pair) (use a b dup free in auto)
  then show ?thesis
    unfolding insert_to_db_unfold rs using a len by simp
qed

lemma insert_to_db_appends:
  "\<exists>added. insert_to_db t df tbl = ((length added, length (rows df)), tbl @ added)
       \<and> list_all (\<lambda>x. \<not> violates_unique tbl x) added"
proof -
  let ?rs = "rows (set_columns (map db_column_name required_columns) (process_and_normalize_df df))"
  obtain tbl' m where run: "insert_rows t ?rs tbl 0 = (tbl', m)"
    by (cases "insert_rows t ?rs tbl 0")
  from insert_rows_appends[OF run] obtain added where
    "tbl' = tbl @ added" "m = 0 + length added" "list_all (\<lambda>x. \<not> violates_unique tbl x) added"
    by blast
  then show ?thesis
    unfolding insert_to_db_unfold run by auto
qed

lemma insert_to_db_single_duplicate:
  assumes recs: "records_of t df = [a]" and dup: "violates_unique tbl a"
  shows "insert_to_db t df tbl = ((0, 1), tbl)"
proof -
  let ?rs = "rows (set_columns (map db_column_name required_columns) (process_and_normalize_df df))"
  from recs have m: "map (row_values t) ?rs = [a]" by (simp add: records_of_unfold)
  then obtain ra where rs: "?rs = [ra]" and a: "row_values t ra = a"
    by (auto simp: map_eq_Cons_conv)
  have len: "length (rows df) = 1"
  proof -
    have "length ?rs = length (rows df)"
      by (simp add: set_columns_def process_and_normalize_df_rows)
    with rs show ?thesis by simp
  qed
  show ?thesis
    unfolding insert_to_db_unfold rs using a dup len by (simp add: execute_insert_def)
qed

text \<open>
  C5. Two records with the same email offered to an empty table, or to a table that
  holds neither the email nor the mobile of the first: the first is stored, the second
  is skipped, the result is (1, 2). A single record whose email or mobile a stored row
  has is skipped: (0, 1), the table as it was. And for every frame and table, the new
  table is the old one followed by the inserted rows, none of which has the email or
  the mobile of an old row; \<open>inserted\<close> counts them and \<open>total\<close> counts the rows of
  the frame.
\<close>

theorem insert_to_db_same_email:
  "(records_of t df = [a, b] \<and> emails a = emails b
      \<longrightarrow> insert_to_db t df [] = ((1, 2), [a\<lparr>row_id := 1\<rparr>]))
   \<and> (records_of t df = [a, b] \<and> emails a = emails b \<and> \<not> violates_unique tbl a
      \<longrightarrow> insert_to_db t df tbl = ((1, 2), tbl @ [a\<lparr>row_id := next_id tbl\<rparr>]))
   \<and> (records_of t df = [a] \<and> violates_unique tbl a
      \<longrightarrow> insert_to_db t df tbl = ((0, 1), tbl))
   \<and> (\<exists>added. insert_to_db t df tbl = ((length added, length (rows df)), tbl @ added)
         \<and> list_all (\<lambda>x. \<not> violates_unique tbl x) added)"
proof (intro conjI impI)
  assume h: "records_of t df = [a, b] \<and> emails a = emails b"
  have "\<not> violates_unique [] a" by (simp add: violates_unique_def)
  with h have "insert_to_db t df [] = ((1, 2), [] @ [a\<lparr>row_id := next_id []\<rparr>])"
    by (intro insert_to_db_pair) auto
  then show "insert_to_db t df [] = ((1, 2), [a\<lparr>row_id := 1\<rparr>])"
    by (simp add: next_id_def)
next
  assume "records_of t df = [a, b] \<and> emails a = emails b \<and> \<not> violates_unique tbl a"
  then show "insert_to_db t df tbl = ((1, 2), tbl @ [a\<lparr>row_id := next_id tbl\<rparr>])"
    by (intro insert_to_db_pair) auto
next
  assume "records_of t df = [a] \<and> violates_unique tbl a"
  then show "insert_to_db t df tbl = ((0, 1), tbl)"
    by (intro insert_to_db_single_duplicate) auto
next
  show "\<exists>added. insert_to_db t df tbl = ((length added, length (rows df)), tbl @ added)
         \<and> list_all (\<lambda>x. \<not> violates_unique tbl x) added"
    by (rule insert_to_db_appends)
qed

text \<open>
  What ends up in a column of the normalized frame: the normalized cell when the frame
  has the column, the empty string when it has not.
\<close>

definition cell :: "pyval dataframe \<Rightarrow> (string \<Rightarrow> pyval) \<Rightarrow> string \<Rightarrow> string" where
  "cell df r c = (if c \<in> set (columns df) then normalize_data (r c) else '''')"

lemma records_of_cells:
  "records_of t df =
     map (\<lambda>r. \<lparr>row_id = 0,
               name = cell df r ''Name'', emails = cell df r ''Emails'',
               mobile = cell df r ''Mobile'',
               present_salary = cell df r ''Present Salary'',
               expected_salary = cell df r ''Expected Salary'',
               date_of_birth = cell df r ''Date of Birth'',
               permanent_address = cell df r ''Permanent Address'',
               company_with_duration = cell df r ''Company with Duration'',
               job_title_with_duration = cell df r ''Job Title with Duration'',
               institution = cell df r ''Institution'', graduation = cell df r ''Graduation'',
               total_years_of_experience = cell df r ''Total Years of experience'',
               created_at = t\<rparr>) (rows df)"
proof -
  have "records_of t df =
     map (row_values t)
       (rows (set_columns
                [''name'', ''emails'', ''mobile'', ''present_salary'', ''expected_salary'',
                 ''date_of_birth'', ''permanent_address'', ''company_with_duration'',
                 ''job_title_with_duration'', ''institution'', ''graduation'',
                 ''total_years_of_experience'']
                (process_and_normalize_df df)))"
    by (simp only: records_of_unfold db_names)
  also have "\<dots> = map (\<lambda>r. \<lparr>row_id = 0,
               name = cell df r ''Name'', emails = cell df r ''Emails'',
               mobile = cell df r ''Mobile'',
               present_salary = cell df r ''Present Salary'',
               expected_salary = cell df r ''Expected Salary'',
               date_of_birth = cell df r ''Date of Birth'',
               permanent_address = cell df r ''Permanent Address'',
               company_with_duration = cell df r ''Company with Duration'',
               job_title_with_duration = cell df r ''Job Title with Duration'',
               institution = cell df r ''Institution'', graduation = cell df r ''Graduation'',
               total_years_of_experience = cell df r ''Total Years of experience'',
               created_at = t\<rparr>) (rows df)"
    by (simp add: set_columns_def process_and_normalize_df_columns
          process_and_normalize_df_rows required_columns_def row_values_def cell_def comp_def)
  finally show ?thesis .
qed

lemma records_of_emails:
  "map emails (records_of t df) = map (\<lambda>r. cell df r ''Emails'') (rows df)"
  by (simp add: records_of_cells comp_def)

lemma records_of_mobile:
  "map mobile (records_of t df) = map (\<lambda>r. cell df r ''Mobile'') (rows df)"
  by (simp add: records_of_cells comp_def)

lemma records_of_length: "length (records_of t df) = length (rows df)"
  by (simp add: records_of_cells)

lemma missing_emails_column:
  assumes "''Emails'' \<notin> set (columns df)"
  shows "list_all (\<lambda>x. emails x = '''') (records_of t df)"
proof -
  have "list_all (\<lambda>e. e = '''') (map emails (records_of t df))"
    unfolding records_of_emails using assms by (simp add: cell_def list_all_iff)
  then show ?thesis by (simp add: list_all_iff)
qed

lemma missing_mobile_column:
  assumes "''Mobile'' \<notin> set (columns df)"
  shows "list_all (\<lambda>x. mobile x = '''') (records_of t df)"
proof -
  have "list_all (\<lambda>e. e = '''') (map mobile (records_of t df))"
    unfolding records_of_mobile using assms by (simp add: cell_def list_all_iff)
  then show ?thesis by (simp add: list_all_iff)
qed

text \<open>A row built from a \<open>dict\<close>, as \<open>pd.DataFrame(list_of_dicts)\<close> does: a missing key is NaN.\<close>

definition row_of :: "(string \<times> pyval) list \<Rightarrow> string \<Rightarrow> pyval" where
  "row_of items c = (case map_of items c of Some v \<Rightarrow> v | None \<Rightarrow> PFloat ''nan'')"

definition blank_resume :: resume where
  "blank_resume =
     \<lparr>row_id = 0, name = '''', emails = '''', mobile = '''', present_salary = '''',
      expected_salary = '''', date_of_birth = '''', permanent_address = '''',
      company_with_duration = '''', job_title_with_duration = '''', institution = '''',
      graduation = '''', total_years_of_experience = '''', created_at = ''''\<rparr>"

definition frame_same_email :: "pyval dataframe" where
  "frame_same_email =
     \<lparr>columns = [''Name'', ''Emails'', ''Mobile''],
      rows = [row_of [(''Name'', PStr ''Ann''), (''Emails'', PStr ''a@x.org''),
                      (''Mobile'', PStr ''111'')],
              row_of [(''Name'', PStr ''Bob''), (''Emails'', PStr ''a@x.org''),
                      (''Mobile'', PStr ''222'')]]\<rparr>"

definition frame_no_email :: "pyval dataframe" where
  "frame_no_email =
     \<lparr>columns = [''Name'', ''Mobile''],
      rows = [row_of [(''Name'', PStr ''Ann''), (''Mobile'', PStr ''111'')],
              row_of [(''Name'', PStr ''Bob''), (''Mobile'', PStr ''222'')]]\<rparr>"

lemmas frame_eval =
  records_of_cells cell_def normalize_data_def py_str_def pd_isna_def row_of_def
  blank_resume_def

lemma records_of_frame_same_email:
  "records_of ''2024-01-01 00:00:00'' frame_same_email =
     [blank_resume\<lparr>name := ''Ann'', emails := ''a@x.org'', mobile := ''111'',
                    created_at := ''2024-01-01 00:00:00''\<rparr>,
      blank_resume\<lparr>name := ''Bob'', emails := ''a@x.org'', mobile := ''222'',
                    created_at := ''2024-01-01 00:00:00''\<rparr>]"
  by (simp add: frame_same_email_def frame_eval)

lemma records_of_frame_no_email:
  "records_of ''2024-01-01 00:00:00'' frame_no_email =
     [blank_resume\<lparr>name := ''Ann'', mobile := ''111'', created_at := ''2024-01-01 00:00:00''\<rparr>,
      blank_resume\<lparr>name := ''Bob'', mobile := ''222'', created_at := ''2024-01-01 00:00:00''\<rparr>]"
  by (simp add: frame_no_email_def frame_eval)

theorem insert_to_db_same_email_witness:
  "records_of ''2024-01-01 00:00:00'' frame_same_email =
     [blank_resume\<lparr>name := ''Ann'', emails := ''a@x.org'', mobile := ''111'',
                    created_at := ''2024-01-01 00:00:00''\<rparr>,
      blank_resume\<lparr>name := ''Bob'', emails := ''a@x.org'', mobile := ''222'',
                    created_at := ''2024-01-01 00:00:00''\<rparr>]
   \<and> insert_to_db ''2024-01-01 00:00:00'' frame_same_email [] =
       ((1, 2), [blank_resume\<lparr>name := ''Ann'', emails := ''a@x.org'', mobile := ''111'',
                    created_at := ''2024-01-01 00:00:00'', row_id := 1\<rparr>])"
proof -
  note recs = records_of_frame_same_email
  have same: "emails (blank_resume\<lparr>name := ''Ann'', emails := ''a@x.org'', mobile := ''111'',
                    created_at := ''2024-01-01 00:00:00''\<rparr>)
            = emails (blank_resume\<lparr>name := ''Bob'', emails := ''a@x.org'', mobile := ''222'',
                    created_at := ''2024-01-01 00:00:00''\<rparr>)"
    by simp
  from insert_to_db_same_email[THEN conjunct1, rule_format, OF conjI, OF recs same]
  show ?thesis using recs by simp
qed

lemma normalize_records_dicts:
  "normalize_records (map PDict recs) = Inr (map normalize_record recs)"
  by (induction recs) simp_all

text \<open>
  C10. A frame that lacks the \<open>Emails\<close> column (or the \<open>Mobile\<close> column) gives records
  whose \<open>emails\<close> (or \<open>mobile\<close>) is the empty string. Of two records that both have an
  empty \<open>emails\<close>, or both an empty \<open>mobile\<close>, only the first is stored: the result is
  (1, 2) and the table gains the first record alone.
\<close>

theorem insert_to_db_empty_contact:
  "(''Emails'' \<notin> set (columns df) \<longrightarrow> list_all (\<lambda>x. emails x = '''') (records_of t df))
   \<and> (''Mobile'' \<notin> set (columns df) \<longrightarrow> list_all (\<lambda>x. mobile x = '''') (records_of t df))
   \<and> (records_of t df = [a, b]
        \<and> (emails a = '''' \<and> emails b = '''' \<or> mobile a = '''' \<and> mobile b = '''')
        \<and> \<not> violates_unique tbl a
      \<longrightarrow> insert_to_db t df tbl = ((1, 2), tbl @ [a\<lparr>row_id := next_id tbl\<rparr>]))
   \<and> (length (rows df) = 2
        \<and> (''Emails'' \<notin> set (columns df) \<or> ''Mobile'' \<notin> set (columns df))
      \<longrightarrow> (\<exists>x y. records_of t df = [x, y]
             \<and> insert_to_db t df [] = ((1, 2), [x\<lparr>row_id := 1\<rparr>])))"
proof (intro conjI impI)
  assume "''Emails'' \<notin> set (columns df)"
  then show "list_all (\<lambda>x. emails x = '''') (records_of t df)"
    by (rule missing_emails_column)
next
  assume "''Mobile'' \<notin> set (columns df)"
  then show "list_all (\<lambda>x. mobile x = '''') (records_of t df)"
    by (rule missing_mobile_column)
next
  assume "records_of t df = [a, b]
        \<and> (emails a = '''' \<and> emails b = '''' \<or> mobile a = '''' \<and> mobile b = '''')
        \<and> \<not> violates_unique tbl a"
  then show "insert_to_db t df tbl = ((1, 2), tbl @ [a\<lparr>row_id := next_id tbl\<rparr>])"
    by (intro insert_to_db_pair) auto
next
  assume h: "length (rows df) = 2
        \<and> (''Emails'' \<notin> set (columns df) \<or> ''Mobile'' \<notin> set (columns df))"
  then have "length (records_of t df) = 2" by (simp add: records_of_length)
  then obtain x y where xy: "records_of t df = [x, y]"
    by (auto simp: length_Suc_conv numeral_2_eq_2)
  have all: "list_all (\<lambda>x. emails x = '''') (records_of t df)
             \<or> list_all (\<lambda>x. mobile x = '''') (records_of t df)"
  proof (cases "''Emails'' \<notin> set (columns df)")
    case True
    then have "list_all (\<lambda>x. emails x = '''') (records_of t df)"
      by (rule missing_emails_column)
    then show ?thesis by (rule disjI1)
  next
    case False
    with h have "''Mobile'' \<notin> set (columns df)" by blast
    then have "list_all (\<lambda>x. mobile x = '''') (records_of t df)"
      by (rule missing_mobile_column)
    then show ?thesis by (rule disjI2)
  qed
  then have dup: "emails x = emails y \<or> mobile x = mobile y"
    using xy by auto
  have "\<not> violates_unique [] x" by (simp add: violates_unique_def)
  with xy dup have "insert_to_db t df [] = ((1, 2), [] @ [x\<lparr>row_id := next_id []\<rparr>])"
    by (intro insert_to_db_pair) auto
  then have "insert_to_db t df [] = ((1, 2), [x\<lparr>row_id := 1\<rparr>])"
    by (simp add: next_id_def)
  with xy show "\<exists>x y. records_of t df = [x, y]
             \<and> insert_to_db t df [] = ((1, 2), [x\<lparr>row_id := 1\<rparr>])"
    by blast
qed

text \<open>
  C8. \<open>normalize_data\<close> and the per-field step of \<open>normalize_json_data\<close> join the
  elements of a list with \<open>", "\<close> (so \<open>["a","b"]\<close> gives \<open>"a, b"\<close>), give the empty
  string for \<open>None\<close> (and \<open>normalize_data\<close> for NaN, the cell of a missing field), and
  give \<open>str(value)\<close> for every other value. \<open>normalize_json_data\<close> does so for every
  field of every record. \<open>process_and_normalize_df\<close> returns the twelve columns of the
  schema, each cell a string: the normalized cell, or the empty string for a column
  the input lacks.
\<close>

theorem normalize_fields:
  "normalize_data (PList [PStr ''a'', PStr ''b'']) = ''a, b''
   \<and> normalize_data (PList vs) = join '', '' (map py_str vs)
   \<and> normalize_data PNone = '''' \<and> normalize_data (PFloat ''nan'') = ''''
   \<and> (\<not> is_list v \<and> \<not> pd_isna v \<longrightarrow> normalize_data v = py_str v)
   \<and> normalize_value (PList [PStr ''a'', PStr ''b'']) = ''a, b''
   \<and> normalize_value (PList vs) = join '', '' (map py_str vs)
   \<and> normalize_value PNone = ''''
   \<and> (\<not> is_list v \<and> v \<noteq> PNone \<longrightarrow> normalize_value v = py_str v)
   \<and> normalize_json_data (PList (map PDict recs))
       = Inr (map (map (\<lambda>kv. (fst kv, normalize_value (snd kv)))) recs)
   \<and> columns (process_and_normalize_df df) = required_columns
   \<and> length required_columns = 12
   \<and> rows (process_and_normalize_df df)
       = map (\<lambda>r c. if c \<in> set required_columns \<and> c \<notin> set (columns df) then ''''
                      else normalize_data (r c)) (rows df)"
proof (intro conjI impI)
  show "normalize_data (PList [PStr ''a'', PStr ''b'']) = ''a, b''"
    by (simp add: normalize_data_def py_str_def)
  show "normalize_data (PList vs) = join '', '' (map py_str vs)"
    by (simp add: normalize_data_def)
  show "normalize_data PNone = ''''" by (simp add: normalize_data_def)
  show "normalize_data (PFloat ''nan'') = ''''" by (simp add: normalize_data_def pd_isna_def)
  show "normalize_value (PList [PStr ''a'', PStr ''b'']) = ''a, b''"
    by (simp add: normalize_value_def py_str_def)
  show "normalize_value (PList vs) = join '', '' (map py_str vs)"
    by (simp add: normalize_value_def)
  show "normalize_value PNone = ''''" by (simp add: normalize_value_def)
  show "normalize_json_data (PList (map PDict recs))
       = Inr (map (map (\<lambda>kv. (fst kv, normalize_value (snd kv)))) recs)"
    by (simp add: normalize_json_data_def normalize_records_dicts normalize_record_def)
  show "columns (process_and_normalize_df df) = required_columns"
    by (rule process_and_normalize_df_columns)
  show "length required_columns = 12" by (simp add: required_columns_def)
  show "rows (process_and_normalize_df df)
       = map (\<lambda>r c. if c \<in> set required_columns \<and> c \<notin> set (columns df) then ''''
                      else normalize_data (r c)) (rows df)"
    by (rule process_and_normalize_df_rows)
next
  assume "\<not> is_list v \<and> \<not> pd_isna v"
  then show "normalize_data v = py_str v"
    by (cases v) (auto simp: normalize_data_def is_list_def pd_isna_def)
next
  assume "\<not> is_list v \<and> v \<noteq> PNone"
  then show "normalize_value v = py_str v"
    by (cases v) (auto simp: normalize_value_def is_list_def)
qed

theorem insert_to_db_empty_contact_witness:
  "''Emails'' \<notin> set (columns frame_no_email)
   \<and> list_all (\<lambda>x. emails x = '''') (records_of ''2024-01-01 00:00:00'' frame_no_email)
   \<and> length (rows frame_no_email) = 2
   \<and> insert_to_db ''2024-01-01 00:00:00'' frame_no_email [] =
       ((1, 2), [blank_resume\<lparr>name := ''Ann'', mobile := ''111'',
                    created_at := ''2024-01-01 00:00:00'', row_id := 1\<rparr>])"
proof -
  have no: "''Emails'' \<notin> set (columns frame_no_email)"
    by (simp add: frame_no_email_def)
  have len: "length (rows frame_no_email) = 2"
    by (simp add: frame_no_email_def)
  note inst = insert_to_db_empty_contact[where df = frame_no_email
                and t = "''2024-01-01 00:00:00''"]
  from inst[THEN conjunct1, rule_format, OF no]
  have e: "list_all (\<lambda>x. emails x = '''') (records_of ''2024-01-01 00:00:00'' frame_no_email)" .
  from inst[THEN conjunct2, THEN conjunct2, THEN conjunct2, rule_format, OF conjI, OF len disjI1,
           OF no]
  obtain x y where "records_of ''2024-01-01 00:00:00'' frame_no_email = [x, y]"
    "insert_to_db ''2024-01-01 00:00:00'' frame_no_email [] = ((1, 2), [x\<lparr>row_id := 1\<rparr>])"
    by blast
  with records_of_frame_no_email no e len show ?thesis by simp
qed

theorem normalize_fields_witness:
  "\<not> is_list (PInt 42) \<and> \<not> pd_isna (PInt 42) \<and> PInt 42 \<noteq> PNone
   \<and> normalize_data (PInt 42) = ''42'' \<and> normalize_value (PInt 42) = ''42''
   \<and> normalize_data (PList [PStr ''a'', PStr ''b'']) = ''a, b''"
proof -
  have h: "\<not> is_list (PInt 42) \<and> \<not> pd_isna (PInt 42)" "\<not> is_list (PInt 42) \<and> PInt 42 \<noteq> PNone"
    by (simp_all add: is_list_def pd_isna_def)
  have s: "py_str (PInt 42) = ''42''"
    by (simp add: py_str_def str_int_def str_nat.simps digit_char_def)
  note inst = normalize_fields[where v = "PInt 42"]
  from inst[THEN conjunct2, THEN conjunct2, THEN conjunct2, THEN conjunct2, THEN conjunct1,
           rule_format, OF h(1)]
  have a: "normalize_data (PInt 42) = py_str (PInt 42)" .
  from inst[THEN conjunct2, THEN conjunct2, THEN conjunct2, THEN conjunct2, THEN conjunct2,
           THEN conjunct2, THEN conjunct2, THEN conjunct2, THEN conjunct1, rule_format, OF h(2)]
  have b: "normalize_value (PInt 42) = py_str (PInt 42)" .
  from inst[THEN conjunct1]
  have c: "normalize_data (PList [PStr ''a'', PStr ''b'']) = ''a, b''" .
  from a b c s h show ?thesis by simp
qed

section \<open>Sections of a resume (\<open>ResumeProcessor.extract_from_pdf\<close>)\<close>

text \<open>\<open>s.split(sep)\<close> for a one-character separator: never empty, \<open>''\<close> gives \<open>['']\<close>.\<close>

fun split_on :: "char \<Rightarrow> string \<Rightarrow> string list" where
  "split_on sep [] = [[]]"
| "split_on sep (c # cs) =
     (if c = sep then [] # split_on sep cs
      else (case split_on sep cs of
              [] \<Rightarrow> [[c]]
            | l # ls \<Rightarrow> (c # l) # ls))"

text \<open>
  The four patterns of \<open>_is_likely_header\<close>, each tried with \<open>re.match\<close> (anchored at
  the start) on the stripped line.

  \<^item> \<open>^[A-Z\s&-]+$\<close>: a non-empty text of capitals, whitespace, \<open>&\<close> and \<open>-\<close>.
  \<^item> \<open>^(EDUCATION|EXPERIENCE|...)\<close>: the text starts with one of ten keywords.
  \<^item> \<open>^[A-Z][a-zA-Z\s]+:\<close>: a capital, then one or more letters or whitespace, then
    a colon. The colon is not in the class, so it must stand right after the longest
    run of the class.
  \<^item> \<open>^[A-Z][a-zA-Z\s]{2,30}$\<close>: a capital, then 2 to 30 letters or whitespace, up
    to the end; \<open>$\<close> also matches before a newline that ends the text.
\<close>

definition header_keywords :: "string list" where
  "header_keywords =
     [''EDUCATION'', ''EXPERIENCE'', ''SKILLS'', ''PROJECTS'', ''SUMMARY'', ''WORK'',
      ''CONTACT'', ''ACHIEVEMENTS'', ''CERTIFICATIONS'', ''LANGUAGES'']"

definition is_caps_class :: "char \<Rightarrow> bool" where
  "is_caps_class c = (is_upper c \<or> is_space c \<or> c = CHR ''&'' \<or> c = CHR ''-'')"

definition is_letter_or_space :: "char \<Rightarrow> bool" where
  "is_letter_or_space c = (is_lower c \<or> is_upper c \<or> is_space c)"

definition matches_all_caps :: "string \<Rightarrow> bool" where
  "matches_all_caps s = (s \<noteq> [] \<and> list_all is_caps_class s)"

definition matches_keyword :: "string \<Rightarrow> bool" where
  "matches_keyword s = list_ex (startswith s) header_keywords"

definition matches_label_colon :: "string \<Rightarrow> bool" where
  "matches_label_colon s =
     (case s of
        [] \<Rightarrow> False
      | c # rest \<Rightarrow>
          is_upper c \<and> takeWhile is_letter_or_space rest \<noteq> []
          \<and> startswith (dropWhile is_letter_or_space rest) '':'')"

definition matches_short_title :: "string \<Rightarrow> bool" where
  "matches_short_title s =
     (case s of
        [] \<Rightarrow> False
      | c # rest \<Rightarrow>
          is_upper c \<and> list_all is_letter_or_space rest \<and> 2 \<le> length rest
          \<and> (length rest \<le> 30 \<or> length rest = 31 \<and> last rest = CHR 0x0A))"

definition is_likely_header :: "string \<Rightarrow> bool" where
  "is_likely_header line =
     (let s = strip line
      in matches_all_caps s \<or> matches_keyword s \<or> matches_label_colon s
         \<or> matches_short_title s)"

text \<open>
  The state of the loop of \<open>extract_from_pdf\<close>: the text gathered so far, the closed
  sections and the section that is open.
\<close>

record resume_section =
  heading :: string
  content :: "string list"

record extraction =
  full_text :: string
  closed :: "resume_section list"
  current_section :: resume_section

definition nonempty_section :: "resume_section \<Rightarrow> bool" where
  "nonempty_section sec = (heading sec \<noteq> [] \<or> content sec \<noteq> [])"

definition extract_line :: "extraction \<Rightarrow> string \<Rightarrow> extraction" where
  "extract_line st line =
     (let clean_line = strip line
      in if clean_line = [] then st
         else
           (let st1 =
                  (if is_likely_header clean_line
                   then st\<lparr>closed := (if nonempty_section (current_section st)
                                         then closed st @ [current_section st]
                                         else closed st),
                           current_section := \<lparr>heading = clean_line, content = []\<rparr>\<rparr>
                   else st\<lparr>current_section :=
                             (current_section st)
                               \<lparr>content := content (current_section st) @ [clean_line]\<rparr>\<rparr>)
            in st1\<lparr>full_text := full_text st1 @ clean_line @ [CHR 0x0A]\<rparr>))"

text \<open>A page whose \<open>extract_text()\<close> is \<open>None\<close> or empty is skipped.\<close>

definition extract_page :: "extraction \<Rightarrow> string option \<Rightarrow> extraction" where
  "extract_page st page =
     (case page of
        None \<Rightarrow> st
      | Some text \<Rightarrow> if text = [] then st else foldl extract_line st (split_on (CHR 0x0A) text))"

text \<open>
  A document either cannot be read (the library raises, with some text) or gives the
  texts of its pages. The result of \<open>extract_from_pdf\<close> is given by its raw text and its
  sections; \<open>contact_info\<close>, which \<open>_extract_contact_info\<close> computes from the gathered
  text and which decides neither of them, is left out.
\<close>

datatype pdf = Unreadable string | Pages "string option list"

record resume_data =
  raw_text :: string
  sections :: "resume_section list"

definition extract_from_pdf :: "pdf \<Rightarrow> error + resume_data" where
  "extract_from_pdf doc =
     (case doc of
        Unreadable msg \<Rightarrow> Inl (OtherException (''Error extracting text: '' @ msg))
      | Pages pages \<Rightarrow>
          (let st = foldl extract_page
                      \<lparr>full_text = [], closed = [],
                       current_section = \<lparr>heading = [], content = []\<rparr>\<rparr> pages
           in Inr \<lparr>raw_text = strip (full_text st),
                   sections = (if nonempty_section (current_section st)
                               then closed st @ [current_section st]
                               else closed st)\<rparr>))"

lemma split_on_nonempty: "split_on sep s \<noteq> []"
  by (induction s) (auto split: list.splits)

lemma split_on_no_sep: "sep \<notin> set a \<Longrightarrow> split_on sep a = [a]"
  by (induction a) auto

lemma split_on_append: "sep \<notin> set a \<Longrightarrow> split_on sep (a @ sep # b) = a # split_on sep b"
  by (induction a) (auto split: list.splits simp: split_on_nonempty)

lemma strip_EDUCATION: "strip ''EDUCATION'' = ''EDUCATION''"
  by (simp add: strip_def is_space_def)

lemma header_EDUCATION: "is_likely_header ''EDUCATION''"
  by (simp add: is_likely_header_def strip_EDUCATION matches_keyword_def header_keywords_def)

text \<open>
  C9. A single page whose text is the line \<open>EDUCATION\<close> followed by two lines that are
  not blank and that \<open>_is_likely_header\<close> does not take for headers gives exactly one
  section: its heading is \<open>EDUCATION\<close> and its content is the two lines, in order, each
  stripped of surrounding whitespace as the code strips every line.
\<close>

theorem extract_education_section:
  assumes "CHR 0x0A \<notin> set l1" and "CHR 0x0A \<notin> set l2"
    and "strip l1 \<noteq> []" and "strip l2 \<noteq> []"
    and "\<not> is_likely_header (strip l1)" and "\<not> is_likely_header (strip l2)"
  shows "\<exists>r. extract_from_pdf (Pages [Some (''EDUCATION'' @ [CHR 0x0A] @ l1 @ [CHR 0x0A] @ l2)])
               = Inr r
             \<and> sections r = [\<lparr>heading = ''EDUCATION'', content = [strip l1, strip l2]\<rparr>]"
proof -
  have nl: "CHR 0x0A \<notin> set ''EDUCATION''" by simp
  have "split_on (CHR 0x0A) (''EDUCATION'' @ CHR 0x0A # l1 @ CHR 0x0A # l2)
          = ''EDUCATION'' # split_on (CHR 0x0A) (l1 @ CHR 0x0A # l2)"
    using nl by (rule split_on_append)
  also have "split_on (CHR 0x0A) (l1 @ CHR 0x0A # l2) = l1 # split_on (CHR 0x0A) l2"
    using assms(1) by (rule split_on_append)
  also have "split_on (CHR 0x0A) l2 = [l2]"
    using assms(2) by (rule split_on_no_sep)
  finally have lines: "split_on (CHR 0x0A) (''EDUCATION'' @ [CHR 0x0A] @ l1 @ [CHR 0x0A] @ l2)
          = [''EDUCATION'', l1, l2]" by simp
  have ne: "''EDUCATION'' @ [CHR 0x0A] @ l1 @ [CHR 0x0A] @ l2 \<noteq> []" by simp
  let ?st0 = "\<lparr>full_text = [], closed = [],
               current_section = \<lparr>heading = [], content = []\<rparr>\<rparr>"
  have page: "extract_page ?st0 (Some (''EDUCATION'' @ [CHR 0x0A] @ l1 @ [CHR 0x0A] @ l2))
                = foldl extract_line ?st0 [''EDUCATION'', l1, l2]"
    by (simp only: extract_page_def option.case ne if_False lines)
  have run: "foldl extract_line ?st0 [''EDUCATION'', l1, l2]
               = \<lparr>full_text = ''EDUCATION'' @ [CHR 0x0A] @ strip l1 @ [CHR 0x0A]
                                @ strip l2 @ [CHR 0x0A],
                  closed = [],
                  current_section = \<lparr>heading = ''EDUCATION'',
                                      content = [strip l1, strip l2]\<rparr>\<rparr>"
    using assms(3-6) header_EDUCATION
    by (simp add: extract_line_def Let_def strip_EDUCATION nonempty_section_def)
  have "extract_from_pdf (Pages [Some (''EDUCATION'' @ [CHR 0x0A] @ l1 @ [CHR 0x0A] @ l2)])
          = Inr \<lparr>raw_text = strip (''EDUCATION'' @ [CHR 0x0A] @ strip l1 @ [CHR 0x0A]
                                    @ strip l2 @ [CHR 0x0A]),
                 sections = [\<lparr>heading = ''EDUCATION'', content = [strip l1, strip l2]\<rparr>]\<rparr>"
  proof -
    have fin: "foldl extract_page ?st0 [Some (''EDUCATION'' @ [CHR 0x0A] @ l1 @ [CHR 0x0A] @ l2)]
               = \<lparr>full_text = ''EDUCATION'' @ [CHR 0x0A] @ strip l1 @ [CHR 0x0A]
                                @ strip l2 @ [CHR 0x0A],
                  closed = [],
                  current_section = \<lparr>heading = ''EDUCATION'',
                                      content = [strip l1, strip l2]\<rparr>\<rparr>"
      using page run by (simp only: foldl.simps)
    show ?thesis
      unfolding extract_from_pdf_def pdf.case fin
      by (simp add: nonempty_section_def Let_def)
  qed
  then show ?thesis by simp
qed

theorem extract_education_section_witness:
  "CHR 0x0A \<notin> set ''BSc in Computer Science, 2010'' \<and> CHR 0x0A \<notin> set ''  2006 - 2010''
   \<and> strip ''BSc in Computer Science, 2010'' = ''BSc in Computer Science, 2010''
   \<and> strip ''  2006 - 2010'' = ''2006 - 2010''
   \<and> \<not> is_likely_header ''BSc in Computer Science, 2010''
   \<and> \<not> is_likely_header ''2006 - 2010''
   \<and> (\<exists>r. extract_from_pdf
             (Pages [Some (''EDUCATION'' @ [CHR 0x0A] @ ''BSc in Computer Science, 2010''
                           @ [CHR 0x0A] @ ''  2006 - 2010'')]) = Inr r
          \<and> sections r = [\<lparr>heading = ''EDUCATION'',
                            content = [''BSc in Computer Science, 2010'', ''2006 - 2010'']\<rparr>])"
proof -
  have s1: "strip ''BSc in Computer Science, 2010'' = ''BSc in Computer Science, 2010''"
    by (simp add: strip_def is_space_def)
  have s2: "strip ''  2006 - 2010'' = ''2006 - 2010''"
    by (simp add: strip_def is_space_def)
  have s3: "strip ''2006 - 2010'' = ''2006 - 2010''"
    by (simp add: strip_def is_space_def)
  have h1: "\<not> is_likely_header ''BSc in Computer Science, 2010''"
    by (simp add: is_likely_header_def s1 matches_all_caps_def matches_keyword_def
          header_keywords_def matches_label_colon_def matches_short_title_def
          is_caps_class_def is_letter_or_space_def is_upper_def is_lower_def is_space_def)
  have h2: "\<not> is_likely_header ''2006 - 2010''"
    by (simp add: is_likely_header_def s3 matches_all_caps_def matches_keyword_def
          header_keywords_def matches_label_colon_def matches_short_title_def
          is_caps_class_def is_letter_or_space_def is_upper_def is_lower_def is_space_def)
  have n1: "CHR 0x0A \<notin> set ''BSc in Computer Science, 2010''" by simp
  have n2: "CHR 0x0A \<notin> set ''  2006 - 2010''" by simp
  have e1: "strip ''BSc in Computer Science, 2010'' \<noteq> []" by (simp add: s1)
  have e2: "strip ''  2006 - 2010'' \<noteq> []" by (simp add: s2)
  have g1: "\<not> is_likely_header (strip ''BSc in Computer Science, 2010'')" using h1 by (simp add: s1)
  have g2: "\<not> is_likely_header (strip ''  2006 - 2010'')" using h2 by (simp add: s2)
  from extract_education_section[OF n1 n2 e1 e2 g1 g2]
  show ?thesis using n1 n2 h1 h2 by (simp add: s1 s2)
qed

section \<open>\<open>json.loads\<close>\<close>

text \<open>
  A model of Python's decoder on ASCII text. It has three outcomes: the value, a
  \<open>JSONDecodeError\<close>, or \<open>Outside\<close>: the text holds a number with a fraction or an exponent
  (a float, whose \<open>str\<close> the model does not compute) or a \<open>\u\<close> escape, and the model
  says nothing about it. The decoder reads the text from left to right, so the first of
  the two that the scan meets decides between \<open>DecodeError\<close> and \<open>Outside\<close>.
\<close>

datatype 'a scan = Scanned 'a | DecodeError | Outside

datatype token =
    LBrace | RBrace | LBracket | RBracket | Colon | Comma
  | TStr string
  | TVal pyval

text \<open>
  The body of a string, after the opening quote: up to the closing quote, with the
  escapes \<open>\" \\ \/ \b \f \n \r \t\<close>; a raw control character is an error.
\<close>

definition escapes :: "(char \<times> char) list" where
  "escapes =
     [(CHR 0x22, CHR 0x22), (CHR 0x5C, CHR 0x5C), (CHR ''/'', CHR ''/''),
      (CHR ''b'', CHR 0x08), (CHR ''f'', CHR 0x0C), (CHR ''n'', CHR 0x0A),
      (CHR ''r'', CHR 0x0D), (CHR ''t'', CHR 0x09)]"

fun scan_string :: "string \<Rightarrow> string \<Rightarrow> (string \<times> string) scan" where
  "scan_string acc [] = DecodeError"
| "scan_string acc [c] =
     (if c = CHR 0x22 then Scanned (rev acc, []) else DecodeError)"
| "scan_string acc (c # e # cs) =
     (if c = CHR 0x22 then Scanned (rev acc, e # cs)
      else if c = CHR 0x5C then
        (if e = CHR ''u'' then Outside
         else (case map_of escapes e of
                 None \<Rightarrow> DecodeError
               | Some x \<Rightarrow> scan_string (x # acc) cs))
      else if (of_char c :: nat) < 32 then DecodeError
      else scan_string (c # acc) (e # cs))"

text \<open>
  A number, by \<open>(-?(?:0|[1-9]\d*))(\.\d+)?([eE][-+]?\d+)?\<close>: the integer part is \<open>0\<close> or
  starts with a digit that is not \<open>0\<close>; a fraction or an exponent makes it a float.
\<close>

definition digit_value :: "char \<Rightarrow> nat" where
  "digit_value c = of_char c - 48"

definition nat_of_digits :: "string \<Rightarrow> nat" where
  "nat_of_digits ds = foldl (\<lambda>n c. 10 * n + digit_value c) 0 ds"

definition starts_with_digit :: "string \<Rightarrow> bool" where
  "starts_with_digit s = (case s of [] \<Rightarrow> False | c # cs \<Rightarrow> is_digit c)"

definition has_fraction :: "string \<Rightarrow> bool" where
  "has_fraction rest = (case rest of [] \<Rightarrow> False | c # cs \<Rightarrow> c = CHR ''.'' \<and> starts_with_digit cs)"

definition has_exponent :: "string \<Rightarrow> bool" where
  "has_exponent rest =
     (case rest of
        [] \<Rightarrow> False
      | c # cs \<Rightarrow>
          (c = CHR ''e'' \<or> c = CHR ''E'')
          \<and> (starts_with_digit cs
              \<or> (case cs of
                    [] \<Rightarrow> False
                  | sg # ds \<Rightarrow> (sg = CHR ''+'' \<or> sg = CHR ''-'') \<and> starts_with_digit ds)))"

definition scan_digits :: "bool \<Rightarrow> string \<Rightarrow> (pyval \<times> string) scan" where
  "scan_digits negative s =
     (case s of
        [] \<Rightarrow> DecodeError
      | d # ds \<Rightarrow>
          if \<not> is_digit d then DecodeError
          else
            (let digits = (if d = CHR ''0'' then [d] else d # takeWhile is_digit ds);
                 rest = (if d = CHR ''0'' then ds else dropWhile is_digit ds)
             in if has_fraction rest \<or> has_exponent rest then Outside
                else Scanned (PInt (if negative then - int (nat_of_digits digits)
                                    else int (nat_of_digits digits)), rest)))"

definition scan_number :: "string \<Rightarrow> (pyval \<times> string) scan" where
  "scan_number s =
     (case s of
        [] \<Rightarrow> DecodeError
      | c # cs \<Rightarrow> if c = CHR ''-'' then scan_digits True cs else scan_digits False (c # cs))"

text \<open>
  The literals, in the order in which the scanner tries them, and one token at the
  head of a text. The whitespace of JSON is space, tab, newline and return.
\<close>

definition literals :: "(string \<times> pyval) list" where
  "literals =
     [(''null'', PNone), (''true'', PBool True), (''false'', PBool False),
      (''NaN'', PFloat ''nan''), (''Infinity'', PFloat ''inf''),
      (''-Infinity'', PFloat ''-inf'')]"

definition punctuation :: "(char \<times> token) list" where
  "punctuation =
     [(CHR ''{'', LBrace), (CHR ''}'', RBrace), (CHR ''['', LBracket), (CHR '']'', RBracket),
      (CHR '':'', Colon), (CHR '','', Comma)]"

definition is_json_space :: "char \<Rightarrow> bool" where
  "is_json_space c = (c = CHR '' '' \<or> c = CHR 0x09 \<or> c = CHR 0x0A \<or> c = CHR 0x0D)"

definition next_token :: "string \<Rightarrow> (token \<times> string) scan" where
  "next_token s =
     (case s of
        [] \<Rightarrow> DecodeError
      | c # cs \<Rightarrow>
          (case map_of punctuation c of
             Some t \<Rightarrow> Scanned (t, cs)
           | None \<Rightarrow>
               if c = CHR 0x22 then
                 (case scan_string [] cs of
                    Scanned (body, rest) \<Rightarrow> Scanned (TStr body, rest)
                  | DecodeError \<Rightarrow> DecodeError
                  | Outside \<Rightarrow> Outside)
               else
                 (case find (\<lambda>l. startswith s (fst l)) literals of
                    Some l \<Rightarrow> Scanned (TVal (snd l), drop (length (fst l)) s)
                  | None \<Rightarrow>
                      (case scan_number s of
                         Scanned (v, rest) \<Rightarrow> Scanned (TVal v, rest)
                       | DecodeError \<Rightarrow> DecodeError
                       | Outside \<Rightarrow> Outside))))"

lemma scan_string_shorter:
  "scan_string acc s = Scanned (body, rest) \<Longrightarrow> length rest < length s"
  by (induction acc s rule: scan_string.induct) (auto split: if_splits option.splits)

lemma scan_number_shorter:
  "scan_number s = Scanned (v, rest) \<Longrightarrow> length rest < length s"
  by (auto simp: scan_number_def scan_digits_def Let_def less_Suc_eq_le length_dropWhile_le
        intro: le_SucI split: list.splits if_splits)

lemma next_token_shorter:
  "next_token s = Scanned (t, rest) \<Longrightarrow> length rest < length s"
proof (cases s)
  case Nil
  then show "next_token s = Scanned (t, rest) \<Longrightarrow> length rest < length s"
    by (simp add: next_token_def)
next
  case (Cons c cs)
  assume a: "next_token s = Scanned (t, rest)"
  show "length rest < length s"
  proof (cases "map_of punctuation c")
    case (Some p)
    with a Cons show ?thesis by (simp add: next_token_def)
  next
    case None
    show ?thesis
    proof (cases "c = CHR 0x22")
      case True
      with a Cons None obtain body where "scan_string [] cs = Scanned (body, rest)"
        by (auto simp: next_token_def split: scan.splits)
      from scan_string_shorter[OF this] Cons show ?thesis by simp
    next
      case False
      show ?thesis
      proof (cases "find (\<lambda>l. startswith s (fst l)) literals")
        case (Some l)
        then have "fst l \<noteq> []"
          by (auto simp: find_Some_iff literals_def nth_Cons' split: if_splits)
        moreover from a Cons None False Some have "rest = drop (length (fst l)) s"
          by (simp add: next_token_def)
        ultimately show ?thesis using Cons by simp
      next
        case N2: None
        with a Cons None False obtain v where "scan_number s = Scanned (v, rest)"
          by (auto simp: next_token_def split: scan.splits)
        from scan_number_shorter[OF this] show ?thesis .
      qed
    qed
  qed
qed

text \<open>The tokens of a text; whitespace may stand between any two of them.\<close>

function lex :: "string \<Rightarrow> token list scan" where
  "lex s =
     (case dropWhile is_json_space s of
        [] \<Rightarrow> Scanned []
      | c # cs \<Rightarrow>
          (case next_token (c # cs) of
             Scanned (t, rest) \<Rightarrow>
               (case lex rest of
                  Scanned ts \<Rightarrow> Scanned (t # ts)
                | DecodeError \<Rightarrow> DecodeError
                | Outside \<Rightarrow> Outside)
           | DecodeError \<Rightarrow> DecodeError
           | Outside \<Rightarrow> Outside))"
  by pat_completeness auto
termination
proof (relation "measure length", goal_cases)
  case 1
  show ?case by simp
next
  case (2 s c cs x t rest)
  from 2(2) 2(3) have "next_token (c # cs) = Scanned (t, rest)" by simp
  then have "length rest < length (c # cs)" by (rule next_token_shorter)
  also have "length (c # cs) \<le> length s"
    using 2(1) length_dropWhile_le[of is_json_space s] by simp
  finally show ?case by simp
qed

declare lex.simps [simp del]

text \<open>
  \<open>dict[k] = v\<close> on the list of items: a key that is there keeps its place and takes the
  new value, a new key goes to the end.
\<close>

fun dict_set :: "string \<Rightarrow> 'v \<Rightarrow> (string \<times> 'v) list \<Rightarrow> (string \<times> 'v) list" where
  "dict_set k v [] = [(k, v)]"
| "dict_set k v ((k', v') # kvs) =
     (if k = k' then (k, v) # kvs else (k', v') # dict_set k v kvs)"

text \<open>
  The grammar, read token by token. The stack holds the containers that are open: an
  array with its elements so far, an object with its items so far, or an object that
  waits for the value of a key. The mode says what may come next.
\<close>

datatype frame =
    ArrF "pyval list"
  | ObjF "(string \<times> pyval) list"
  | ObjV "(string \<times> pyval) list" string

datatype mode = MValue | MArrStart | MObjStart | MKey | MColon | MAfter | MDone pyval

text \<open>A value is complete: it is the result, or it goes into the container on top.\<close>

fun close_value :: "pyval \<Rightarrow> frame list \<Rightarrow> mode \<times> frame list" where
  "close_value v [] = (MDone v, [])"
| "close_value v (ArrF vs # st) = (MAfter, ArrF (vs @ [v]) # st)"
| "close_value v (ObjV items k # st) = (MAfter, ObjF (dict_set k v items) # st)"
| "close_value v (ObjF items # st) = (MAfter, ObjF items # st)"

text \<open>A token that starts a value, where a value is expected.\<close>

fun open_value :: "token \<Rightarrow> frame list \<Rightarrow> (mode \<times> frame list) option" where
  "open_value (TVal v) st = Some (close_value v st)"
| "open_value (TStr s) st = Some (close_value (PStr s) st)"
| "open_value LBracket st = Some (MArrStart, ArrF [] # st)"
| "open_value LBrace st = Some (MObjStart, ObjF [] # st)"
| "open_value t st = None"

fun open_key :: "token \<Rightarrow> frame list \<Rightarrow> (mode \<times> frame list) option" where
  "open_key (TStr k) (ObjF items # st) = Some (MColon, ObjV items k # st)"
| "open_key t st = None"

fun close_container :: "token \<Rightarrow> frame list \<Rightarrow> (mode \<times> frame list) option" where
  "close_container RBracket (ArrF vs # st) = Some (close_value (PList vs) st)"
| "close_container RBrace (ObjF items # st) = Some (close_value (PDict items) st)"
| "close_container t st = None"

fun after_value :: "token \<Rightarrow> frame list \<Rightarrow> (mode \<times> frame list) option" where
  "after_value Comma (ArrF vs # st) = Some (MValue, ArrF vs # st)"
| "after_value Comma (ObjF items # st) = Some (MKey, ObjF items # st)"
| "after_value t st = close_container t st"

definition step :: "mode \<Rightarrow> frame list \<Rightarrow> token \<Rightarrow> (mode \<times> frame list) option" where
  "step m st t =
     (case m of
        MValue \<Rightarrow> open_value t st
      | MArrStart \<Rightarrow> (if t = RBracket then close_container t st else open_value t st)
      | MObjStart \<Rightarrow> (if t = RBrace then close_container t st else open_key t st)
      | MKey \<Rightarrow> open_key t st
      | MColon \<Rightarrow> (if t = Colon then Some (MValue, st) else None)
      | MAfter \<Rightarrow> after_value t st
      | MDone v \<Rightarrow> None)"

fun run :: "mode \<Rightarrow> frame list \<Rightarrow> token list \<Rightarrow> pyval option" where
  "run m st [] = (case m of MDone v \<Rightarrow> Some v | _ \<Rightarrow> None)"
| "run m st (t # ts) =
     (case step m st t of
        None \<Rightarrow> None
      | Some (m', st') \<Rightarrow> run m' st' ts)"

text \<open>
  \<open>json.loads(s)\<close>: \<open>None\<close> when the text is outside the model, else the value or the
  \<open>JSONDecodeError\<close>.
\<close>

definition json_loads :: "string \<Rightarrow> (error + pyval) option" where
  "json_loads s =
     (case lex s of
        Outside \<Rightarrow> None
      | DecodeError \<Rightarrow> Some (Inl JSONDecodeError)
      | Scanned ts \<Rightarrow>
          (case run MValue [] ts of
             None \<Rightarrow> Some (Inl JSONDecodeError)
           | Some v \<Rightarrow> Some (Inr v)))"

lemmas json_eval =
  json_loads_def lex.simps next_token_def punctuation_def literals_def escapes_def
  scan_number_def scan_digits_def has_fraction_def has_exponent_def starts_with_digit_def
  nat_of_digits_def digit_value_def is_json_space_def is_digit_def step_def Let_def

section \<open>From a document to its record (\<open>ResumeProcessor\<close>)\<close>

text \<open>
  \<open>process_with_llm\<close>. The payload of the request is built from the extracted document,
  which stands for it here. A \<open>GroqAPIError\<close> of the client becomes the record
  \<open>{"error": "LLM processing failed: ..."}\<close>; every other exception leaves the method. The
  content of the first choice is parsed; when it is not JSON the record is
  \<open>{"raw_llm_output": the content}\<close>. \<open>None\<close> in the first component: the content is outside
  the model of \<open>json.loads\<close>.
\<close>

definition process_with_llm ::
  "resume_data env \<Rightarrow> resume_data \<Rightarrow> client \<Rightarrow> resume_data world
     \<Rightarrow> (error + pyval) option \<times> client \<times> resume_data world" where
  "process_with_llm e data s w =
     (case create_chat_completion e data s w of
        (Inl (GroqAPIError msg cause), s', w') \<Rightarrow>
          (Some (Inr (PDict [(''error'', PStr (''LLM processing failed: '' @ msg))])), s', w')
      | (Inl err, s', w') \<Rightarrow> (Some (Inl err), s', w')
      | (Inr None, s', w') \<Rightarrow> (Some (Inl AttributeError), s', w')
      | (Inr (Some []), s', w') \<Rightarrow> (Some (Inl IndexError), s', w')
      | (Inr (Some (body # others)), s', w') \<Rightarrow>
          (case json_loads body of
             None \<Rightarrow> (None, s', w')
           | Some (Inr llm_output) \<Rightarrow> (Some (Inr llm_output), s', w')
           | Some (Inl err) \<Rightarrow> (Some (Inr (PDict [(''raw_llm_output'', PStr body)])), s', w')))"

text \<open>
  The names of the batch. \<open>is_pdf\<close>: \<open>file.lower().endswith('.pdf')\<close>. \<open>splitext_root\<close>:
  \<open>os.path.splitext(file)[0]\<close> with \<open>/\<close> as the separator: the name without its last
  extension, where the dots that begin the last component do not start an extension.
\<close>

definition endswith :: "string \<Rightarrow> string \<Rightarrow> bool" where
  "endswith s suffix = startswith (rev s) (rev suffix)"

definition is_pdf :: "string \<Rightarrow> bool" where
  "is_pdf file = endswith (lower file) ''.pdf''"

definition splitext_root :: "string \<Rightarrow> string" where
  "splitext_root p =
     (let base = rev (takeWhile (\<lambda>c. c \<noteq> CHR ''/'') (rev p));
          dir = rev (dropWhile (\<lambda>c. c \<noteq> CHR ''/'') (rev p));
          stem = rev (tl (dropWhile (\<lambda>c. c \<noteq> CHR ''.'') (rev base)))
      in if CHR ''.'' \<in> set base \<and> \<not> list_all (\<lambda>c. c = CHR ''.'') stem
         then dir @ stem else p)"

text \<open>
  An entry of the archive is named by a path, with \<open>/\<close> between its components
  (POSIX paths). \<open>ZipFile.extract\<close> drops the empty components and the components \<open>.\<close>
  and \<open>..\<close> of a name before it writes the entry under the temporary folder, while
  \<open>os.path.join(temp_folder, file)\<close> and the name of the output keep them; what happens
  then depends on how the file system resolves the name, and such names are outside
  the model. \<open>upper_dirs\<close> are the folders that the extraction makes for an entry
  (\<open>os.makedirs(upperdirs)\<close>): one for every \<open>/\<close> of its name, named by the text before it.
\<close>

definition proper_path :: "string \<Rightarrow> bool" where
  "proper_path p = list_all (\<lambda>c. c \<noteq> [] \<and> c \<noteq> ''.'' \<and> c \<noteq> ''..'') (split_on (CHR ''/'') p)"

fun folders_on :: "string \<Rightarrow> string \<Rightarrow> string list" where
  "folders_on before [] = []"
| "folders_on before (c # cs) =
     (if c = CHR ''/'' then before # folders_on (before @ [c]) cs
      else folders_on (before @ [c]) cs)"

definition upper_dirs :: "string \<Rightarrow> string set" where
  "upper_dirs p = set (folders_on [] p)"

text \<open>
  The state of \<open>process_all_resumes\<close>: the client, the world, the JSON files written to
  the output folder (name and value), the documents whose processing raised, with
  the exception that the loop caught and printed, the folders that stand in the
  temporary folder (a processed file is removed from it, its folders stay), and the
  exception that has left the method (\<open>None\<close>: none has).

  The file system is taken as a first run finds it: the temporary folder is new or
  empty, the output folder holds no folder (the constructor makes the output folder
  and nothing makes a folder inside it), and it accepts every name and every write.
\<close>

record batch =
  client_state :: client
  world_state :: "resume_data world"
  outputs :: "(string \<times> pyval) list"
  failures :: "(string \<times> error) list"
  temp_folders :: "string set"
  raised :: "error option"

text \<open>
  The body of the loop for one PDF entry: the \<open>try\<close> with its \<open>except Exception\<close>. When
  the name of the output has a folder part, \<open>open(output_path, 'w')\<close> raises an \<open>OSError\<close>
  (\<open>FileNotFoundError\<close>, or \<open>NotADirectoryError\<close> when a saved file has the name of that
  folder), since the output folder holds no folder. The handler catches it like every
  other exception; the request has been made by then, and nothing is saved.
\<close>

definition process_pdf ::
  "resume_data env \<Rightarrow> string \<Rightarrow> pdf \<Rightarrow> batch \<Rightarrow> batch option" where
  "process_pdf e file doc b =
     (case extract_from_pdf doc of
        Inl err \<Rightarrow> Some (b\<lparr>failures := failures b @ [(file, err)]\<rparr>)
      | Inr data \<Rightarrow>
          (case process_with_llm e data (client_state b) (world_state b) of
             (None, s', w') \<Rightarrow> None
           | (Some (Inl err), s', w') \<Rightarrow>
               Some (b\<lparr>client_state := s', world_state := w',
                       failures := failures b @ [(file, err)]\<rparr>)
           | (Some (Inr llm_processed_data), s', w') \<Rightarrow>
               (let output_filename = splitext_root file @ ''.json''
                in if CHR ''/'' \<in> set output_filename
                   then Some (b\<lparr>client_state := s', world_state := w',
                               failures := failures b @ [(file, OSError)]\<rparr>)
                   else Some (b\<lparr>client_state := s', world_state := w',
                               outputs := dict_set output_filename
                                            llm_processed_data (outputs b)\<rparr>))))"

text \<open>
  \<open>process_all_resumes\<close> over the entries of the archive, in the order of
  \<open>namelist()\<close>. An entry whose name ends in \<open>.pdf\<close> is extracted under the temporary
  folder, which makes the folders of its name; when a folder stands where the file is
  to be written, \<open>zip_ref.extract\<close> raises \<open>IsADirectoryError\<close>, outside the \<open>try\<close>, and the
  method is left. After the loop, \<open>os.rmdir(temp_folder)\<close> raises \<open>OSError\<close> when the
  temporary folder is not empty: when it holds a folder. \<open>None\<close>: a content was outside
  the model of \<open>json.loads\<close>, or a name outside the model of the paths.
\<close>

fun process_all_resumes ::
  "resume_data env \<Rightarrow> (string \<times> pdf) list \<Rightarrow> batch \<Rightarrow> batch option" where
  "process_all_resumes e [] b =
     Some (if temp_folders b = {} then b else b\<lparr>raised := Some OSError\<rparr>)"
| "process_all_resumes e ((file, doc) # rest) b =
     (if is_pdf file
      then (if \<not> proper_path file then None
            else if file \<in> temp_folders b then Some (b\<lparr>raised := Some OSError\<rparr>)
            else (case process_pdf e file doc
                         (b\<lparr>temp_folders := temp_folders b \<union> upper_dirs file\<rparr>) of
                    None \<Rightarrow> None
                  | Some b' \<Rightarrow> process_all_resumes e rest b'))
      else process_all_resumes e rest b)"

text \<open>
  An entry at the top level of the archive (no \<open>/\<close> in its name) has a proper name,
  makes no folder, and the name of its output has no folder part.
\<close>

lemma startswith_length: "startswith s p \<Longrightarrow> length p \<le> length s"
  by (induction s p rule: startswith.induct) auto

lemma is_pdf_length: "is_pdf file \<Longrightarrow> 4 \<le> length file"
  using startswith_length[of "rev (lower file)" "rev ''.pdf''"]
  by (simp add: is_pdf_def endswith_def lower_def)

lemma folders_on_top_level: "CHR ''/'' \<notin> set p \<Longrightarrow> folders_on before p = []"
  by (induction p arbitrary: before) auto

lemma upper_dirs_top_level: "CHR ''/'' \<notin> set p \<Longrightarrow> upper_dirs p = {}"
  by (simp add: upper_dirs_def folders_on_top_level)

lemma proper_path_top_level:
  assumes "is_pdf file" and "CHR ''/'' \<notin> set file"
  shows "proper_path file"
proof -
  from assms(1) have "4 \<le> length file" by (rule is_pdf_length)
  then have "file \<noteq> [] \<and> file \<noteq> ''.'' \<and> file \<noteq> ''..''" by auto
  then show ?thesis
    using assms(2) by (simp add: proper_path_def split_on_no_sep)
qed

lemma splitext_root_top_level:
  assumes "CHR ''/'' \<notin> set p"
  shows "CHR ''/'' \<notin> set (splitext_root p @ ''.json'')"
proof -
  have base: "takeWhile (\<lambda>c. c \<noteq> CHR ''/'') (rev p) = rev p"
    using assms by (auto simp: takeWhile_eq_all_conv)
  have dir: "dropWhile (\<lambda>c. c \<noteq> CHR ''/'') (rev p) = []"
    using assms by (auto simp: dropWhile_eq_Nil_conv)
  have "set (tl (dropWhile (\<lambda>c. c \<noteq> CHR ''.'') (rev p))) \<subseteq> set p"
  proof
    fix x assume "x \<in> set (tl (dropWhile (\<lambda>c. c \<noteq> CHR ''.'') (rev p)))"
    then have "x \<in> set (dropWhile (\<lambda>c. c \<noteq> CHR ''.'') (rev p))"
      by (cases "dropWhile (\<lambda>c. c \<noteq> CHR ''.'') (rev p)") auto
    then show "x \<in> set p" by (auto dest: set_dropWhileD)
  qed
  then show ?thesis
    using assms by (auto simp: splitext_root_def Let_def base dir)
qed

lemma process_pdf_top_level:
  "CHR ''/'' \<notin> set file \<Longrightarrow>
   process_pdf e file doc b =
     (case extract_from_pdf doc of
        Inl err \<Rightarrow> Some (b\<lparr>failures := failures b @ [(file, err)]\<rparr>)
      | Inr data \<Rightarrow>
          (case process_with_llm e data (client_state b) (world_state b) of
             (None, s', w') \<Rightarrow> None
           | (Some (Inl err), s', w') \<Rightarrow>
               Some (b\<lparr>client_state := s', world_state := w',
                       failures := failures b @ [(file, err)]\<rparr>)
           | (Some (Inr llm_processed_data), s', w') \<Rightarrow>
               Some (b\<lparr>client_state := s', world_state := w',
                       outputs := dict_set (splitext_root file @ ''.json'')
                                    llm_processed_data (outputs b)\<rparr>)))"
  using splitext_root_top_level[of "file"]
  by (simp add: process_pdf_def Let_def split: sum.splits option.splits prod.splits)




lemma json_loads_refusal: "json_loads ''I cannot process this'' = Some (Inl JSONDecodeError)"
  by (simp add: json_eval)

lemma json_loads_error: "json_loads s = Some (Inl err) \<Longrightarrow> err = JSONDecodeError"
  by (auto simp: json_loads_def split: scan.splits option.splits)

text \<open>
  C7. When the content of the first choice of the response is not valid JSON,
  \<open>process_with_llm\<close> returns the record whose one key \<open>raw_llm_output\<close> holds the full
  content, and raises nothing. \<open>I cannot process this\<close> is such a content.
\<close>

theorem process_with_llm_fallback:
  "json_loads ''I cannot process this'' = Some (Inl JSONDecodeError)
   \<and> (create_chat_completion e data s w = (Inr (Some (body # others)), s', w')
        \<and> json_loads body = Some (Inl JSONDecodeError)
      \<longrightarrow> process_with_llm e data s w
            = (Some (Inr (PDict [(''raw_llm_output'', PStr body)])), s', w'))"
  by (simp add: process_with_llm_def json_loads_refusal)

text \<open>
  Examples: a one-page document, the data extracted from it, a service that answers
  every call with a refusal in plain text, and a client with a single key.
\<close>

definition doc_ann :: pdf where
  "doc_ann = Pages [Some ''ann smith'']"

definition data_ann :: resume_data where
  "data_ann = \<lparr>raw_text = ''ann smith'',
               sections = [\<lparr>heading = [], content = [''ann smith'']\<rparr>]\<rparr>"

definition env_refusal :: "'q env" where
  "env_refusal =
     \<lparr>service = (\<lambda>n key req. Success [''I cannot process this'']), rand = (\<lambda>n. 0)\<rparr>"

definition client_one_key :: client where
  "client_one_key =
     \<lparr>api_keys = [''k1''], current_client = Some ''k1'',
      used_keys = {''k1''}, invalid_keys = {}\<rparr>"

lemma extract_doc_ann: "extract_from_pdf doc_ann = Inr data_ann"
  by (simp add: extract_from_pdf_def doc_ann_def data_ann_def extract_page_def
        extract_line_def Let_def strip_def is_space_def nonempty_section_def
        is_likely_header_def matches_all_caps_def matches_keyword_def header_keywords_def
        matches_label_colon_def matches_short_title_def is_caps_class_def is_upper_def)

lemma is_pdf_a: "is_pdf ''a.pdf''"
  by (simp add: is_pdf_def endswith_def lower_def lower_char_def)


lemma splitext_a: "splitext_root ''a.pdf'' = ''a''"
  by (simp add: splitext_root_def)


lemma completion_refusal:
  "create_chat_completion env_refusal data_ann client_one_key fresh_world
     = (Inr (Some [''I cannot process this'']), client_one_key,
        \<lparr>calls = [(''k1'', Completion data_ann, Success [''I cannot process this''])],
         draws = 0\<rparr>)"
  by (simp add: client_eval env_refusal_def client_one_key_def)



theorem process_with_llm_fallback_witness:
  "create_chat_completion env_refusal data_ann client_one_key fresh_world
     = (Inr (Some [''I cannot process this'']), client_one_key,
        \<lparr>calls = [(''k1'', Completion data_ann, Success [''I cannot process this''])],
         draws = 0\<rparr>)
   \<and> json_loads ''I cannot process this'' = Some (Inl JSONDecodeError)
   \<and> process_with_llm env_refusal data_ann client_one_key fresh_world
       = (Some (Inr (PDict [(''raw_llm_output'', PStr ''I cannot process this'')])),
          client_one_key,
          \<lparr>calls = [(''k1'', Completion data_ann, Success [''I cannot process this''])],
           draws = 0\<rparr>)"
proof -
  note run = completion_refusal
  note inst = process_with_llm_fallback[where e = env_refusal and data = data_ann
      and s = client_one_key and w = fresh_world and body = "''I cannot process this''"
      and others = "[]" and s' = client_one_key]
  from inst have bad: "json_loads ''I cannot process this'' = Some (Inl JSONDecodeError)"
    by (rule conjunct1)
  from inst[THEN conjunct2, rule_format, OF conjI, OF run bad] run bad
  show ?thesis by simp
qed



definition batch_start :: batch where
  "batch_start =
     \<lparr>client_state = client_one_key, world_state = fresh_world, outputs = [], failures = [],
      temp_folders = {}, raised = None\<rparr>"




text \<open>
  An entry inside a folder of the archive: the request is made, the output cannot be
  written (the output folder has no such folder), the document is reported, and the
  folder left in the temporary folder makes \<open>os.rmdir\<close> raise after the loop.
\<close>

lemma process_all_resumes_entry_in_folder:
  "process_all_resumes env_refusal [(''sub/a.pdf'', doc_ann)] batch_start
     = Some \<lparr>client_state = client_one_key,
             world_state =
               \<lparr>calls = [(''k1'', Completion data_ann, Success [''I cannot process this''])],
                draws = 0\<rparr>,
             outputs = [], failures = [(''sub/a.pdf'', OSError)],
             temp_folders = {''sub''}, raised = Some OSError\<rparr>"
proof -
  have "is_pdf ''sub/a.pdf''"
    by (simp add: is_pdf_def endswith_def lower_def lower_char_def)
  moreover have "proper_path ''sub/a.pdf''"
    by (simp add: proper_path_def)
  moreover have "upper_dirs ''sub/a.pdf'' = {''sub''}"
    by (simp add: upper_dirs_def)
  moreover have "splitext_root ''sub/a.pdf'' = ''sub/a''"
    by (simp add: splitext_root_def)
  moreover have "process_with_llm env_refusal data_ann client_one_key fresh_world
       = (Some (Inr (PDict [(''raw_llm_output'', PStr ''I cannot process this'')])),
          client_one_key,
          \<lparr>calls = [(''k1'', Completion data_ann, Success [''I cannot process this''])],
           draws = 0\<rparr>)"
    by (simp add: process_with_llm_def completion_refusal json_loads_refusal)
  ultimately show ?thesis
    by (simp add: batch_start_def process_pdf_def extract_doc_ann Let_def)
qed

section \<open>From the saved records to the table (\<open>sscript.process_resumes\<close>)\<close>

text \<open>
  \<open>re.search(r'```(?:json)?\s*(.*?)\s*```', raw_output, re.DOTALL)\<close>, giving
  \<open>group(1)\<close>. The functions follow the order in which the matcher tries: the start
  positions from the left; at a fence the optional \<open>json\<close> taken first, left out on
  failure; the first \<open>\s*\<close> as long as possible, shorter on failure; the group as
  short as possible, longer on failure. The last \<open>\s*\<close> takes all the whitespace it
  finds: giving some back leaves a whitespace character where the closing fence must
  start.
\<close>

definition fence :: string where
  "fence = [CHR 0x60, CHR 0x60, CHR 0x60]"

definition closing_fence :: "string \<Rightarrow> bool" where
  "closing_fence u = startswith (dropWhile is_space u) fence"

fun lazy_group :: "string \<Rightarrow> string \<Rightarrow> string option" where
  "lazy_group acc [] = (if closing_fence [] then Some (rev acc) else None)"
| "lazy_group acc (c # cs) =
     (if closing_fence (c # cs) then Some (rev acc) else lazy_group (c # acc) cs)"

fun after_tag :: "string \<Rightarrow> string option" where
  "after_tag [] = lazy_group [] []"
| "after_tag (c # cs) =
     (if is_space c
      then (case after_tag cs of
              Some g \<Rightarrow> Some g
            | None \<Rightarrow> lazy_group [] (c # cs))
      else lazy_group [] (c # cs))"

definition fence_at :: "string \<Rightarrow> string option" where
  "fence_at t =
     (if startswith t fence
      then (case (if startswith (drop 3 t) ''json'' then after_tag (drop 7 t) else None) of
              Some g \<Rightarrow> Some g
            | None \<Rightarrow> after_tag (drop 3 t))
      else None)"

fun search_fence :: "string \<Rightarrow> string option" where
  "search_fence [] = fence_at []"
| "search_fence (c # cs) =
     (case fence_at (c # cs) of
        Some g \<Rightarrow> Some g
      | None \<Rightarrow> search_fence cs)"

text \<open>
  \<open>re.search(r'(\[.*\]|\{.*\})', raw_output, re.DOTALL)\<close>: at the leftmost position
  where one of them matches, from \<open>[\<close> to the last \<open>]\<close>, or else from \<open>{\<close> to the
  last \<open>}\<close>.
\<close>

definition delimited_at :: "char \<Rightarrow> char \<Rightarrow> string \<Rightarrow> string option" where
  "delimited_at opening closing t =
     (case t of
        [] \<Rightarrow> None
      | c # cs \<Rightarrow>
          if c = opening \<and> closing \<in> set cs
          then Some (c # rev (dropWhile (\<lambda>x. x \<noteq> closing) (rev cs)))
          else None)"

fun search_brackets :: "string \<Rightarrow> string option" where
  "search_brackets [] = None"
| "search_brackets (c # cs) =
     (case delimited_at (CHR ''['') (CHR '']'') (c # cs) of
        Some g \<Rightarrow> Some g
      | None \<Rightarrow>
          (case delimited_at (CHR ''{'') (CHR ''}'') (c # cs) of
             Some g \<Rightarrow> Some g
           | None \<Rightarrow> search_brackets cs))"

text \<open>
  The body of the loop for the content of one file: the records it adds to \<open>all_data\<close>
  (none when nothing is found or the embedded text is not JSON), or the exception that
  the \<open>except Exception\<close> of the loop catches; \<open>None\<close> outside the model of
  \<open>json.loads\<close>. \<open>'raw_llm_output' in content\<close> is a key test on a \<open>dict\<close>, a membership
  test on a list, a substring test on a string and a \<open>TypeError\<close> on the other values;
  indexing a list or a string with that key is a \<open>TypeError\<close>, and so is \<open>re.search\<close>
  on a value that is not a string.
\<close>

definition as_list :: "pyval \<Rightarrow> pyval" where
  "as_list data = (if is_list data then data else PList [data])"

definition records_of_raw :: "pyval \<Rightarrow> (error + (string \<times> string) list list) option" where
  "records_of_raw raw =
     (case raw of
        PStr raw_output \<Rightarrow>
          (case (case search_fence raw_output of
                   Some g \<Rightarrow> Some g
                 | None \<Rightarrow> search_brackets raw_output) of
             None \<Rightarrow> Some (Inr [])
           | Some json_str \<Rightarrow>
               if json_str = [] then Some (Inr [])
               else (case json_loads json_str of
                       None \<Rightarrow> None
                     | Some (Inl err) \<Rightarrow> Some (Inr [])
                     | Some (Inr data) \<Rightarrow> Some (normalize_json_data (as_list data))))
      | _ \<Rightarrow> Some (Inl TypeError))"

definition records_of_content :: "pyval \<Rightarrow> (error + (string \<times> string) list list) option" where
  "records_of_content content_value =
     (case content_value of
        PDict items \<Rightarrow>
          (case map_of items ''raw_llm_output'' of
             Some raw \<Rightarrow> records_of_raw raw
           | None \<Rightarrow> Some (normalize_json_data (as_list content_value)))
      | PList vs \<Rightarrow>
          if PStr ''raw_llm_output'' \<in> set vs then Some (Inl TypeError)
          else Some (normalize_json_data (as_list content_value))
      | PStr s \<Rightarrow>
          if contains s ''raw_llm_output'' then Some (Inl TypeError)
          else Some (normalize_json_data (as_list content_value))
      | _ \<Rightarrow> Some (Inl TypeError))"

text \<open>
  The loop over the folder, given as the names of its files with the values that
  \<open>json.load\<close> reads from them: the records gathered from the \<open>.json\<close> files, a file
  whose body raised being skipped.
\<close>

fun gather :: "(string \<times> pyval) list \<Rightarrow> (string \<times> string) list list option" where
  "gather [] = Some []"
| "gather ((filename, content_value) # rest) =
     (if endswith filename ''.json''
      then (case records_of_content content_value of
              None \<Rightarrow> None
            | Some (Inl err) \<Rightarrow> gather rest
            | Some (Inr recs) \<Rightarrow>
                (case gather rest of
                   None \<Rightarrow> None
                 | Some more_recs \<Rightarrow> Some (recs @ more_recs)))
      else gather rest)"

text \<open>
  The frame that \<open>pd.DataFrame\<close> and \<open>pd.concat\<close> build from the gathered records: its
  columns are the keys of the records, and a record that lacks a key has NaN there.
\<close>

definition frame_of_records :: "(string \<times> string) list list \<Rightarrow> pyval dataframe" where
  "frame_of_records recs =
     \<lparr>columns = rev (remdups (rev (concat (map (map fst) recs)))),
      rows = map (\<lambda>rec c. case map_of rec c of Some v \<Rightarrow> PStr v | None \<Rightarrow> PFloat ''nan'')
               recs\<rparr>"

text \<open>\<open>Series.astype(str).replace('nan', '').replace('None', '')\<close> on one cell.\<close>

definition replace_value :: "string \<Rightarrow> string \<Rightarrow> string \<Rightarrow> string" where
  "replace_value old new v = (if v = old then new else v)"

definition final_cell :: "pyval \<Rightarrow> string" where
  "final_cell v = replace_value ''None'' '''' (replace_value ''nan'' '''' (py_str v))"

text \<open>
  \<open>process_resumes\<close>: the frame of the gathered records, with the missing required
  columns added (empty), cut to the required columns, every cell made a string.
\<close>

definition process_resumes :: "(string \<times> pyval) list \<Rightarrow> string dataframe option" where
  "process_resumes json_folder =
     (case gather json_folder of
        None \<Rightarrow> None
      | Some all_data \<Rightarrow>
          (let final_df = foldl (ensure_column (PStr '''')) (frame_of_records all_data)
                            required_columns
           in Some \<lparr>columns = required_columns,
                    rows = map (\<lambda>r c. final_cell (r c)) (rows final_df)\<rparr>))"

text \<open>
  The model output of the example: a fenced block that holds an array with one record.
\<close>

definition fenced_body :: string where
  "fenced_body = fence @ ''json'' @ [CHR 0x0A] @ ''[{\"Name\":\"X\"}]'' @ [CHR 0x0A] @ fence"

definition env_fenced :: "'q env" where
  "env_fenced = \<lparr>service = (\<lambda>n key req. Success [fenced_body]), rand = (\<lambda>n. 0)\<rparr>"

lemma search_fence_fenced_body: "search_fence fenced_body = Some ''[{\"Name\":\"X\"}]''"
  by (simp add: fenced_body_def fence_def fence_at_def closing_fence_def is_space_def)

lemma json_loads_fenced_body: "json_loads fenced_body = Some (Inl JSONDecodeError)"
  by (simp add: fenced_body_def fence_def json_eval)

lemma json_loads_embedded:
  "json_loads ''[{\"Name\":\"X\"}]'' = Some (Inr (PList [PDict [(''Name'', PStr ''X'')]]))"
  by (simp add: json_eval)

lemma completion_fenced:
  "create_chat_completion env_fenced data_ann client_one_key fresh_world
     = (Inr (Some [fenced_body]), client_one_key,
        \<lparr>calls = [(''k1'', Completion data_ann, Success [fenced_body])], draws = 0\<rparr>)"
  by (simp add: client_eval env_fenced_def client_one_key_def)

lemma process_with_llm_fenced:
  "process_with_llm env_fenced data_ann client_one_key fresh_world
     = (Some (Inr (PDict [(''raw_llm_output'', PStr fenced_body)])), client_one_key,
        \<lparr>calls = [(''k1'', Completion data_ann, Success [fenced_body])], draws = 0\<rparr>)"
  by (simp add: process_with_llm_def completion_fenced json_loads_fenced_body)

lemma batch_fenced:
  "process_all_resumes env_fenced [(''a.pdf'', doc_ann)] batch_start
     = Some \<lparr>client_state = client_one_key,
             world_state =
               \<lparr>calls = [(''k1'', Completion data_ann, Success [fenced_body])], draws = 0\<rparr>,
             outputs = [(''a.json'', PDict [(''raw_llm_output'', PStr fenced_body)])],
             failures = [], temp_folders = {}, raised = None\<rparr>"
  by (simp add: batch_start_def is_pdf_a proper_path_top_level upper_dirs_top_level
        extract_doc_ann process_pdf_top_level process_with_llm_fenced splitext_a)

lemma gather_fenced:
  "gather [(''a.json'', PDict [(''raw_llm_output'', PStr fenced_body)])]
     = Some [[(''Name'', ''X'')]]"
proof -
  have "''[{\"Name\":\"X\"}]'' \<noteq> []" by simp
  then have "records_of_raw (PStr fenced_body) = Some (Inr [[(''Name'', ''X'')]])"
    by (simp add: records_of_raw_def search_fence_fenced_body json_loads_embedded as_list_def
          is_list_def normalize_json_data_def normalize_record_def normalize_value_def
          py_str_def)
  then show ?thesis
    by (simp add: records_of_content_def endswith_def)
qed

lemma process_resumes_rows:
  "gather folder = Some recs \<Longrightarrow>
   process_resumes folder
     = Some \<lparr>columns = required_columns,
             rows = map (\<lambda>rec c. final_cell
                           (if c \<in> set required_columns
                               \<and> c \<notin> set (columns (frame_of_records recs))
                            then PStr ''''
                            else (case map_of rec c of
                                    Some v \<Rightarrow> PStr v
                                  | None \<Rightarrow> PFloat ''nan'')))
                      recs\<rparr>"
  by (simp add: process_resumes_def Let_def add_missing_columns comp_def)
     (simp add: frame_of_records_def comp_def)

text \<open>The cells of a frame, row by row, in the order of its columns.\<close>

definition table_of :: "'v dataframe \<Rightarrow> 'v list list" where
  "table_of df = map (\<lambda>r. map r (columns df)) (rows df)"

lemma table_fenced:
  "map_option table_of
      (process_resumes [(''a.json'', PDict [(''raw_llm_output'', PStr fenced_body)])])
     = Some [[''X'', '''', '''', '''', '''', '''', '''', '''', '''', '''', '''', '''']]"
proof -
  let ?r = "\<lambda>c. final_cell
                (if c \<in> set required_columns
                    \<and> c \<notin> set (columns (frame_of_records [[(''Name'', ''X'')]]))
                 then PStr ''''
                 else (case map_of [(''Name'', ''X'')] c of
                         Some v \<Rightarrow> PStr v
                       | None \<Rightarrow> PFloat ''nan''))"
  have pr: "process_resumes [(''a.json'', PDict [(''raw_llm_output'', PStr fenced_body)])]
              = Some \<lparr>columns = required_columns, rows = [?r]\<rparr>"
    using process_resumes_rows[OF gather_fenced] by simp
  have cells: "map ?r required_columns
         = [''X'', '''', '''', '''', '''', '''', '''', '''', '''', '''', '''', '''']"
    by (simp add: required_columns_def frame_of_records_def final_cell_def replace_value_def
          py_str_def)
  show ?thesis
    unfolding pr table_of_def using cells by simp
qed

lemma columns_fenced:
  "map_option columns
      (process_resumes [(''a.json'', PDict [(''raw_llm_output'', PStr fenced_body)])])
     = Some required_columns"
  using process_resumes_rows[OF gather_fenced] by simp

text \<open>
  C6. The service answers with the fenced block. The content is not JSON, so
  \<open>process_with_llm\<close> returns it under \<open>raw_llm_output\<close> and the batch saves that as
  \<open>a.json\<close>. \<open>process_resumes\<close> on the output folder finds the block, parses the array
  in it and returns a frame with the twelve columns and one row: \<open>Name\<close> is \<open>X\<close> and the
  other eleven cells are empty.
\<close>

theorem fenced_block_gives_one_record:
  "process_with_llm env_fenced data_ann client_one_key fresh_world
     = (Some (Inr (PDict [(''raw_llm_output'', PStr fenced_body)])), client_one_key,
        \<lparr>calls = [(''k1'', Completion data_ann, Success [fenced_body])], draws = 0\<rparr>)
   \<and> map_option outputs (process_all_resumes env_fenced [(''a.pdf'', doc_ann)] batch_start)
       = Some [(''a.json'', PDict [(''raw_llm_output'', PStr fenced_body)])]
   \<and> map_option columns
        (process_resumes [(''a.json'', PDict [(''raw_llm_output'', PStr fenced_body)])])
       = Some required_columns
   \<and> map_option table_of
        (process_resumes [(''a.json'', PDict [(''raw_llm_output'', PStr fenced_body)])])
       = Some [[''X'', '''', '''', '''', '''', '''', '''', '''', '''', '''', '''', '''']]"
  using process_with_llm_fenced batch_fenced columns_fenced table_fenced by simp

end
